theory Spec2Isabelle
  imports Main "HOL-Library.Word"
begin

section \<open>The JavaScript platform the class is written against\<close>

text \<open>
  \<^verbatim>\<open>src/src/Semaphore.ts\<close> keeps its whole shared state in one \<^verbatim>\<open>ArrayBuffer\<close>, seen through an
  \<^verbatim>\<open>Int32Array\<close> and changed only by \<^verbatim>\<open>Atomics.compareExchange\<close>. The built-ins are modelled
  here as ECMAScript defines them, as far as the class uses them.

  JavaScript numbers are modelled as \<open>int\<close>: every number the class computes is an
  integer of magnitude far below \<open>2^53\<close>, where doubles are exact. The elements of the typed
  array are \<open>32 word\<close>; \<open>ToInt32\<close> is the conversion a store applies and \<open>sint\<close> the value a
  load returns.
\<close>

datatype error = Error string | RangeError | TypeError

text \<open>
  The memory of a buffer is its bytes; \<open>shared\<close> tells the memory of a
  \<^verbatim>\<open>SharedArrayBuffer\<close> apart. A buffer that has been detached has no memory; what is handed
  to a constructor of the class is therefore a \<open>buffer_object\<close>, below.
\<close>

record ArrayBuffer =
  bytes :: "8 word list"
  shared :: bool

definition byteLength :: "ArrayBuffer \<Rightarrow> nat" where
  "byteLength b = length (bytes b)"

text \<open>The memory \<^verbatim>\<open>new SharedArrayBuffer(n)\<close> and \<^verbatim>\<open>new ArrayBuffer(n)\<close> allocate: \<open>n\<close> zero
  bytes.\<close>

definition new_SharedArrayBuffer :: "nat \<Rightarrow> ArrayBuffer" where
  "new_SharedArrayBuffer n = \<lparr>bytes = replicate n 0, shared = True\<rparr>"

definition new_ArrayBuffer :: "nat \<Rightarrow> ArrayBuffer" where
  "new_ArrayBuffer n = \<lparr>bytes = replicate n 0, shared = False\<rparr>"

text \<open>
  A buffer object, as a caller can hand it over:
  \<^item> \<open>FixedLength b\<close>: a buffer whose length cannot change, with the memory \<open>b\<close>; this is what
    \<^verbatim>\<open>new SharedArrayBuffer(n)\<close> and \<^verbatim>\<open>new ArrayBuffer(n)\<close> return;
  \<^item> \<open>Resizable b\<close>: an \<^verbatim>\<open>ArrayBuffer\<close> or a \<^verbatim>\<open>SharedArrayBuffer\<close> made with a
    \<^verbatim>\<open>maxByteLength\<close>, whose length can change, with the memory \<open>b\<close> at present;
  \<^item> \<open>Detached\<close>: an \<^verbatim>\<open>ArrayBuffer\<close> whose memory has been transferred away.
\<close>

datatype buffer_object = FixedLength ArrayBuffer | Resizable ArrayBuffer | Detached

text \<open>The two standard constructors, as values for the optional argument of
  \<^verbatim>\<open>Semaphore.new\<close>.\<close>

definition SharedArrayBuffer_constructor :: "nat \<Rightarrow> buffer_object" where
  "SharedArrayBuffer_constructor n = FixedLength (new_SharedArrayBuffer n)"

definition ArrayBuffer_constructor :: "nat \<Rightarrow> buffer_object" where
  "ArrayBuffer_constructor n = FixedLength (new_ArrayBuffer n)"

text \<open>
  An element of an \<^verbatim>\<open>Int32Array\<close> is four bytes, least significant first (typed arrays use
  the byte order of the machine, little-endian on every platform Node.js runs on).
\<close>

fun le_bytes :: "nat \<Rightarrow> int \<Rightarrow> 8 word list" where
  "le_bytes 0 u = []"
| "le_bytes (Suc n) u = word_of_int u # le_bytes n (u div 256)"

definition bytes_of_int32 :: "32 word \<Rightarrow> 8 word list" where
  "bytes_of_int32 w = le_bytes 4 (uint w)"

definition int32_of_bytes :: "8 word list \<Rightarrow> 32 word" where
  "int32_of_bytes bs = word_of_int (horner_sum uint 256 bs)"

text \<open>
  \<^verbatim>\<open>new Int32Array(buffer)\<close>, with no offset and no length: a \<^verbatim>\<open>TypeError\<close> when the buffer
  is detached; a view that tracks the length when the buffer is resizable, whatever its
  byte length; and for a buffer of fixed length a \<^verbatim>\<open>RangeError\<close> when the byte length is not
  a multiple of 4. In every other case the view has \<open>byteLength div 4\<close> elements over the
  memory of the buffer. The view is not a value of its own in the model: it is that memory,
  read through \<open>get_int32\<close>.
\<close>

fun new_Int32Array :: "buffer_object \<Rightarrow> error + ArrayBuffer" where
  "new_Int32Array Detached = Inl TypeError"
| "new_Int32Array (Resizable b) = Inr b"
| "new_Int32Array (FixedLength b) =
     (if byteLength b mod 4 \<noteq> 0 then Inl RangeError else Inr b)"

definition view_length :: "ArrayBuffer \<Rightarrow> nat" where
  "view_length b = byteLength b div 4"

definition get_int32 :: "ArrayBuffer \<Rightarrow> nat \<Rightarrow> 32 word" where
  "get_int32 b i = int32_of_bytes (take 4 (drop (4 * i) (bytes b)))"

definition set_int32 :: "ArrayBuffer \<Rightarrow> nat \<Rightarrow> 32 word \<Rightarrow> ArrayBuffer" where
  "set_int32 b i w =
     b\<lparr>bytes := take (4 * i) (bytes b) @ bytes_of_int32 w @ drop (4 * i + 4) (bytes b)\<rparr>"

definition ToInt32 :: "int \<Rightarrow> 32 word" where
  "ToInt32 x = word_of_int x"

text \<open>
  \<^verbatim>\<open>Atomics.compareExchange(view, index, expected, replacement)\<close>: a \<^verbatim>\<open>RangeError\<close> for an
  index outside the view; otherwise, in one atomic step, the old element is read, the
  replacement is stored if the old element equals the expected value (both converted by
  \<open>ToInt32\<close>), and the old element is returned.
\<close>

definition Atomics_compareExchange ::
  "ArrayBuffer \<Rightarrow> nat \<Rightarrow> int \<Rightarrow> int \<Rightarrow> error + (int \<times> ArrayBuffer)" where
  "Atomics_compareExchange b i expected replacement =
     (if view_length b \<le> i then Inl RangeError
      else let old = get_int32 b i
           in Inr (sint old,
                   if old = ToInt32 expected then set_int32 b i (ToInt32 replacement) else b))"

text \<open>
  \<^verbatim>\<open>Atomics.wait(view, index, value)\<close> with no timeout: a \<^verbatim>\<open>TypeError\<close> when the buffer is
  not shared, a \<^verbatim>\<open>RangeError\<close> for an index outside the view, \<^verbatim>\<open>"not-equal"\<close> at once when
  the element differs from \<open>value\<close>; otherwise the agent sleeps until another agent calls
  \<^verbatim>\<open>Atomics.notify\<close> on the element. The agent is one that may block (a Node.js thread).

  \<open>Atomics_wait\<close> is the call's first, atomic part: \<open>Inr None\<close> says that the agent went to
  sleep. In a run with no other agent nobody wakes it, and the call never returns.
\<close>

datatype wait_result = ok | not_equal

definition Atomics_wait :: "ArrayBuffer \<Rightarrow> nat \<Rightarrow> int \<Rightarrow> error + wait_result option" where
  "Atomics_wait b i v =
     (if \<not> shared b then Inl TypeError
      else if view_length b \<le> i then Inl RangeError
      else if get_int32 b i \<noteq> ToInt32 v then Inr (Some not_equal)
      else Inr None)"

text \<open>
  \<^verbatim>\<open>Atomics.notify(view, index)\<close>: a \<^verbatim>\<open>RangeError\<close> for an index outside the view; otherwise
  every agent sleeping on the element is woken. Memory is not changed. The call returns
  the number of agents woken, which the class never looks at, so that the model keeps only
  whether the call throws; the waking itself is part of the step of a system of agents,
  below.
\<close>

definition Atomics_notify :: "ArrayBuffer \<Rightarrow> nat \<Rightarrow> error option" where
  "Atomics_notify b i = (if view_length b \<le> i then Some RangeError else None)"

section \<open>The class \<^verbatim>\<open>Semaphore\<close>\<close>

text \<open>
  The fields of the class: \<open>ptr\<close>, the buffer, and the two private flags
  \<^verbatim>\<open>__haveWriteLock\<close> and \<^verbatim>\<open>__haveReadLock\<close>. The field \<^verbatim>\<open>int32ArrayView\<close> is the view over
  \<open>ptr\<close> and shares its memory, so that it needs no field of its own. A handle is modelled
  together with the memory it refers to: an operation takes the handle and returns it with
  the memory as the operation left it. A handle exists only on a buffer that was not
  detached when the handle was made, so that \<open>ptr\<close> is the memory of that buffer; that
  somebody detaches or resizes the buffer later is, like a write to its memory from
  elsewhere, no part of a run of one handle.
\<close>

record Semaphore =
  ptr :: ArrayBuffer
  priv_haveWriteLock :: bool
  priv_haveReadLock :: bool

definition WRITE_LOCKED :: int where "WRITE_LOCKED = - 1"
definition UNLOCKED :: int where "UNLOCKED = 0"
definition BYTE_OFFSET :: nat where "BYTE_OFFSET = 0"

definition haveWriteLock :: "Semaphore \<Rightarrow> bool" where
  "haveWriteLock s = priv_haveWriteLock s"

definition haveReadLock :: "Semaphore \<Rightarrow> bool" where
  "haveReadLock s = priv_haveReadLock s"

text \<open>The shared lock word: element \<open>BYTE_OFFSET\<close> of the view.\<close>

definition lockWord :: "Semaphore \<Rightarrow> 32 word" where
  "lockWord s = get_int32 (ptr s) BYTE_OFFSET"

text \<open>The private constructor: it builds the view, which may throw, and leaves the flags
  at their defaults.\<close>

definition Semaphore_constructor :: "buffer_object \<Rightarrow> error + Semaphore" where
  "Semaphore_constructor arrayBuffer =
     (case new_Int32Array arrayBuffer of
        Inl e \<Rightarrow> Inl e
      | Inr view \<Rightarrow> Inr \<lparr>ptr = view, priv_haveWriteLock = False,
                         priv_haveReadLock = False\<rparr>)"

text \<open>
  \<^verbatim>\<open>Semaphore.new(arrayBufferConstructor = SharedArrayBuffer)\<close>. The optional argument is any
  constructor from a byte length to a buffer; \<open>None\<close> is the call without it.
\<close>

definition Semaphore_new :: "(nat \<Rightarrow> buffer_object) option \<Rightarrow> error + Semaphore" where
  "Semaphore_new arrayBufferConstructor =
     (let ctor = (case arrayBufferConstructor of
                    None \<Rightarrow> SharedArrayBuffer_constructor
                  | Some c \<Rightarrow> c)
      in Semaphore_constructor (ctor 4))"

definition Semaphore_from :: "buffer_object \<Rightarrow> error + Semaphore" where
  "Semaphore_from arrayBuffer = Semaphore_constructor arrayBuffer"

text \<open>
  How a call ends: it returns, it throws, or it goes to sleep in \<^verbatim>\<open>Atomics.wait\<close> and, with
  no other agent to wake it, never returns. Each carries the handle and its memory as the
  call left them.
\<close>

datatype outcome = Returned Semaphore | Thrown error Semaphore | Blocked Semaphore

fun state_of :: "outcome \<Rightarrow> Semaphore" where
  "state_of (Returned s) = s"
| "state_of (Thrown e s) = s"
| "state_of (Blocked s) = s"

subsection \<open>\<^verbatim>\<open>writeLock\<close> and \<^verbatim>\<open>writeUnlock\<close>\<close>

text \<open>
  The loop of \<^verbatim>\<open>writeLock\<close>: compare-and-swap \<open>UNLOCKED\<close> to \<open>WRITE_LOCKED\<close>; while the
  value read is not \<open>UNLOCKED\<close>, wait on that value and try again.
\<close>

function writeLock_loop :: "Semaphore \<Rightarrow> outcome" where
  "writeLock_loop s =
     (case Atomics_compareExchange (ptr s) BYTE_OFFSET UNLOCKED WRITE_LOCKED of
        Inl e \<Rightarrow> Thrown e s
      | Inr (lockState, b) \<Rightarrow>
          if lockState \<noteq> UNLOCKED then
            (case Atomics_wait b BYTE_OFFSET lockState of
               Inl e \<Rightarrow> Thrown e (s\<lparr>ptr := b\<rparr>)
             | Inr None \<Rightarrow> Blocked (s\<lparr>ptr := b\<rparr>)
             | Inr (Some r) \<Rightarrow> writeLock_loop (s\<lparr>ptr := b\<rparr>))
          else Returned (s\<lparr>ptr := b\<rparr>))"
  by pat_completeness auto
termination
proof (relation "{}")
  show "wf ({} :: (Semaphore \<times> Semaphore) set)"
    by simp
next
  fix s :: Semaphore and x :: "int \<times> ArrayBuffer" and lockState :: int and b :: ArrayBuffer
    and r' :: "wait_result option" and r :: wait_result
  assume cas: "Atomics_compareExchange (ptr s) BYTE_OFFSET UNLOCKED WRITE_LOCKED = Inr x"
    and x: "(lockState, b) = x"
    and busy: "lockState \<noteq> UNLOCKED"
    and wait: "Atomics_wait b BYTE_OFFSET lockState = Inr r'"
    and r': "r' = Some r"
  from cas x busy have "b = ptr s" and "lockState = sint (get_int32 (ptr s) BYTE_OFFSET)"
    by (auto simp: Atomics_compareExchange_def Let_def UNLOCKED_def ToInt32_def
        split: if_splits)
  with wait r' have False
    by (simp add: Atomics_wait_def ToInt32_def split: if_splits)
  then show "(s\<lparr>ptr := b\<rparr>, s) \<in> {}" ..
qed

definition writeLock :: "Semaphore \<Rightarrow> outcome" where
  "writeLock s =
     (if haveReadLock s then
        Thrown (Error ''Cannot acquire write lock without releasing read lock first'') s
      else if haveWriteLock s then
        Thrown (Error ''Cannot acquire write lock while already holding write lock'') s
      else
        (case writeLock_loop s of
           Returned s' \<Rightarrow>
             (case Atomics_notify (ptr s') BYTE_OFFSET of
                Some e \<Rightarrow> Thrown e s'
              | None \<Rightarrow> Returned (s'\<lparr>priv_haveWriteLock := True\<rparr>))
         | Thrown e s' \<Rightarrow> Thrown e s'
         | Blocked s' \<Rightarrow> Blocked s'))"

definition writeUnlock :: "Semaphore \<Rightarrow> outcome" where
  "writeUnlock s =
     (if \<not> haveWriteLock s then
        Thrown (Error ''Cannot release write lock without acquiring write lock first'') s
      else if haveReadLock s then
        Thrown (Error ''Semaphore corrupted: write and read lock held at the same time'') s
      else
        (case Atomics_compareExchange (ptr s) BYTE_OFFSET WRITE_LOCKED UNLOCKED of
           Inl e \<Rightarrow> Thrown e s
         | Inr (old, b) \<Rightarrow>
             if old \<noteq> WRITE_LOCKED then
               Thrown (Error ''Semaphore corrupted: holding write lock, but unable to unlock'')
                 (s\<lparr>ptr := b\<rparr>)
             else
               (case Atomics_notify b BYTE_OFFSET of
                  Some e \<Rightarrow> Thrown e (s\<lparr>ptr := b\<rparr>)
                | None \<Rightarrow> Returned (s\<lparr>ptr := b, priv_haveWriteLock := False\<rparr>))))"

subsection \<open>\<^verbatim>\<open>readLock\<close> and \<^verbatim>\<open>readUnlock\<close>\<close>

text \<open>
  The loop of \<^verbatim>\<open>readLock\<close>, with the local \<open>lockState\<close> as argument: compare-and-swap
  \<open>lockState\<close> to \<open>lockState + 1\<close>; when another value was read, take it as \<open>lockState\<close>,
  and when that is \<open>-1\<close>, wait while the word is \<open>WRITE_LOCKED\<close> and start again from
  \<open>UNLOCKED\<close>.
\<close>

function readLock_loop :: "Semaphore \<Rightarrow> int \<Rightarrow> outcome" where
  "readLock_loop s lockState =
     (case Atomics_compareExchange (ptr s) BYTE_OFFSET lockState (lockState + 1) of
        Inl e \<Rightarrow> Thrown e s
      | Inr (newLockState, b) \<Rightarrow>
          if newLockState \<noteq> lockState then
            (if newLockState = - 1 then
               (case Atomics_wait b BYTE_OFFSET WRITE_LOCKED of
                  Inl e \<Rightarrow> Thrown e (s\<lparr>ptr := b\<rparr>)
                | Inr None \<Rightarrow> Blocked (s\<lparr>ptr := b\<rparr>)
                | Inr (Some r) \<Rightarrow> readLock_loop (s\<lparr>ptr := b\<rparr>) UNLOCKED)
             else readLock_loop (s\<lparr>ptr := b\<rparr>) newLockState)
          else Returned (s\<lparr>ptr := b\<rparr>))"
  by pat_completeness auto
termination
proof (relation "measure (\<lambda>(s, lockState).
    if sint (ToInt32 lockState) \<noteq> lockState then 2
    else if ToInt32 lockState \<noteq> get_int32 (ptr s) BYTE_OFFSET then 1 else 0)")
  show "wf (measure (\<lambda>(s :: Semaphore, lockState :: int).
    if sint (ToInt32 lockState) \<noteq> lockState then 2
    else if ToInt32 lockState \<noteq> get_int32 (ptr s) BYTE_OFFSET then 1 else (0::nat)))"
    by simp
next
  fix s :: Semaphore and lockState :: int and x :: "int \<times> ArrayBuffer"
    and newLockState :: int and b :: ArrayBuffer and r' :: "wait_result option"
    and r :: wait_result
  assume cas: "Atomics_compareExchange (ptr s) BYTE_OFFSET lockState (lockState + 1) = Inr x"
    and x: "(newLockState, b) = x"
    and new: "newLockState \<noteq> lockState"
    and locked: "newLockState = - 1"
    and wait: "Atomics_wait b BYTE_OFFSET WRITE_LOCKED = Inr r'"
    and r': "r' = Some r"
  from cas x have old: "newLockState = sint (get_int32 (ptr s) BYTE_OFFSET)"
    by (auto simp: Atomics_compareExchange_def Let_def split: if_splits)
  have "sint (ToInt32 lockState) \<noteq> lockState"
  proof
    assume inr: "sint (ToInt32 lockState) = lockState"
    with new old have "get_int32 (ptr s) BYTE_OFFSET \<noteq> ToInt32 lockState"
      by auto
    with cas x have "b = ptr s"
      by (auto simp: Atomics_compareExchange_def Let_def split: if_splits)
    moreover have "ToInt32 (sint (get_int32 (ptr s) BYTE_OFFSET)) = get_int32 (ptr s) BYTE_OFFSET"
      by (simp add: ToInt32_def)
    ultimately have "get_int32 b BYTE_OFFSET = ToInt32 WRITE_LOCKED"
      using old locked by (simp add: WRITE_LOCKED_def)
    with wait r' show False
      by (simp add: Atomics_wait_def split: if_splits)
  qed
  then show "((s\<lparr>ptr := b\<rparr>, UNLOCKED), (s, lockState)) \<in> measure (\<lambda>(s, lockState).
    if sint (ToInt32 lockState) \<noteq> lockState then 2
    else if ToInt32 lockState \<noteq> get_int32 (ptr s) BYTE_OFFSET then 1 else 0)"
    by (simp add: UNLOCKED_def ToInt32_def)
next
  fix s :: Semaphore and lockState :: int and x :: "int \<times> ArrayBuffer"
    and newLockState :: int and b :: ArrayBuffer
  assume cas: "Atomics_compareExchange (ptr s) BYTE_OFFSET lockState (lockState + 1) = Inr x"
    and x: "(newLockState, b) = x"
    and new: "newLockState \<noteq> lockState"
    and unlocked: "newLockState \<noteq> - 1"
  from cas x have old: "newLockState = sint (get_int32 (ptr s) BYTE_OFFSET)"
    by (auto simp: Atomics_compareExchange_def Let_def split: if_splits)
  show "((s\<lparr>ptr := b\<rparr>, newLockState), (s, lockState)) \<in> measure (\<lambda>(s, lockState).
    if sint (ToInt32 lockState) \<noteq> lockState then 2
    else if ToInt32 lockState \<noteq> get_int32 (ptr s) BYTE_OFFSET then 1 else 0)"
  proof (cases "sint (ToInt32 lockState) = lockState")
    case False
    with old show ?thesis
      by (simp add: ToInt32_def)
  next
    case True
    with new old have "get_int32 (ptr s) BYTE_OFFSET \<noteq> ToInt32 lockState"
      by auto
    with cas x have "b = ptr s"
      by (auto simp: Atomics_compareExchange_def Let_def split: if_splits)
    with True old \<open>get_int32 (ptr s) BYTE_OFFSET \<noteq> ToInt32 lockState\<close> show ?thesis
      by (auto simp: ToInt32_def)
  qed
qed

definition readLock :: "Semaphore \<Rightarrow> outcome" where
  "readLock s =
     (if haveWriteLock s then
        Thrown (Error ''Cannot acquire read lock without releasing write lock first'') s
      else if haveReadLock s then
        Thrown (Error ''Cannot acquire read lock while already holding read lock'') s
      else
        (case readLock_loop s UNLOCKED of
           Returned s' \<Rightarrow>
             (case Atomics_notify (ptr s') BYTE_OFFSET of
                Some e \<Rightarrow> Thrown e s'
              | None \<Rightarrow> Returned (s'\<lparr>priv_haveReadLock := True\<rparr>))
         | Thrown e s' \<Rightarrow> Thrown e s'
         | Blocked s' \<Rightarrow> Blocked s'))"

text \<open>
  The loop of \<^verbatim>\<open>readUnlock\<close>: compare-and-swap \<open>lockState\<close> to \<open>lockState - 1\<close>; when
  another value was read, throw if it is \<open>WRITE_LOCKED\<close> and take it as \<open>lockState\<close>
  otherwise.
\<close>

function readUnlock_loop :: "Semaphore \<Rightarrow> int \<Rightarrow> outcome" where
  "readUnlock_loop s lockState =
     (case Atomics_compareExchange (ptr s) BYTE_OFFSET lockState (lockState - 1) of
        Inl e \<Rightarrow> Thrown e s
      | Inr (newLockState, b) \<Rightarrow>
          if newLockState \<noteq> lockState then
            (if newLockState = WRITE_LOCKED then
               Thrown (Error ''Semaphore corrupted: Read lock was overridden by write lock'')
                 (s\<lparr>ptr := b\<rparr>)
             else readUnlock_loop (s\<lparr>ptr := b\<rparr>) newLockState)
          else Returned (s\<lparr>ptr := b\<rparr>))"
  by pat_completeness auto
termination
proof (relation "measure (\<lambda>(s, lockState).
    if sint (ToInt32 lockState) \<noteq> lockState then 2
    else if ToInt32 lockState \<noteq> get_int32 (ptr s) BYTE_OFFSET then 1 else 0)")
  show "wf (measure (\<lambda>(s :: Semaphore, lockState :: int).
    if sint (ToInt32 lockState) \<noteq> lockState then 2
    else if ToInt32 lockState \<noteq> get_int32 (ptr s) BYTE_OFFSET then 1 else (0::nat)))"
    by simp
next
  fix s :: Semaphore and lockState :: int and x :: "int \<times> ArrayBuffer"
    and newLockState :: int and b :: ArrayBuffer
  assume cas: "Atomics_compareExchange (ptr s) BYTE_OFFSET lockState (lockState - 1) = Inr x"
    and x: "(newLockState, b) = x"
    and new: "newLockState \<noteq> lockState"
  from cas x have old: "newLockState = sint (get_int32 (ptr s) BYTE_OFFSET)"
    by (auto simp: Atomics_compareExchange_def Let_def split: if_splits)
  show "((s\<lparr>ptr := b\<rparr>, newLockState), (s, lockState)) \<in> measure (\<lambda>(s, lockState).
    if sint (ToInt32 lockState) \<noteq> lockState then 2
    else if ToInt32 lockState \<noteq> get_int32 (ptr s) BYTE_OFFSET then 1 else 0)"
  proof (cases "sint (ToInt32 lockState) = lockState")
    case False
    with old show ?thesis
      by (simp add: ToInt32_def)
  next
    case True
    with new old have differs: "get_int32 (ptr s) BYTE_OFFSET \<noteq> ToInt32 lockState"
      by auto
    with cas x have "b = ptr s"
      by (auto simp: Atomics_compareExchange_def Let_def split: if_splits)
    with True old differs show ?thesis
      by (auto simp: ToInt32_def)
  qed
qed

definition readUnlock :: "Semaphore \<Rightarrow> outcome" where
  "readUnlock s =
     (if \<not> haveReadLock s then
        Thrown (Error ''Cannot release read lock without acquiring read lock first'') s
      else if haveWriteLock s then
        Thrown (Error ''Semaphore corrupted: write and read lock held at the same time'') s
      else
        (case readUnlock_loop s 1 of
           Returned s' \<Rightarrow>
             (case Atomics_notify (ptr s') BYTE_OFFSET of
                Some e \<Rightarrow> Thrown e s'
              | None \<Rightarrow> Returned (s'\<lparr>priv_haveReadLock := False\<rparr>))
         | Thrown e s' \<Rightarrow> Thrown e s'
         | Blocked s' \<Rightarrow> Blocked s'))"

subsection \<open>The two kinds of error the class throws\<close>

text \<open>
  Every error the class throws itself is a plain \<^verbatim>\<open>Error\<close>, told apart by its message: a
  message that begins with \<^verbatim>\<open>Semaphore corrupted:\<close> reports shared state that contradicts
  the handle (Corruption), any other message a misuse of the handle (ProtocolViolation).
  \<^verbatim>\<open>RangeError\<close> and \<^verbatim>\<open>TypeError\<close> come from the platform.
\<close>

datatype error_kind = ProtocolViolation | Corruption | PlatformError

fun kind_of :: "error \<Rightarrow> error_kind" where
  "kind_of (Error msg) =
     (if take 20 msg = ''Semaphore corrupted:'' then Corruption else ProtocolViolation)"
| "kind_of RangeError = PlatformError"
| "kind_of TypeError = PlatformError"

subsection \<open>Sequences of calls on one handle\<close>

datatype call = WriteLock | WriteUnlock | ReadLock | ReadUnlock

fun invoke :: "call \<Rightarrow> Semaphore \<Rightarrow> outcome" where
  "invoke WriteLock s = writeLock s"
| "invoke WriteUnlock s = writeUnlock s"
| "invoke ReadLock s = readLock s"
| "invoke ReadUnlock s = readUnlock s"

text \<open>A caller that does not catch: the run stops at the first call that does not return.\<close>

fun run :: "call list \<Rightarrow> Semaphore \<Rightarrow> outcome" where
  "run [] s = Returned s"
| "run (c # cs) s =
     (case invoke c s of
        Returned s' \<Rightarrow> run cs s'
      | Thrown e s' \<Rightarrow> Thrown e s'
      | Blocked s' \<Rightarrow> Blocked s')"

text \<open>
  A caller that catches every error and goes on with the next call, as the tests do with
  \<^verbatim>\<open>expect(() => ...).toThrow()\<close>; a call that blocks ends the run. The result is the
  handle after the last call.
\<close>

fun run_catching :: "call list \<Rightarrow> Semaphore \<Rightarrow> Semaphore" where
  "run_catching [] s = s"
| "run_catching (c # cs) s =
     (case invoke c s of
        Returned s' \<Rightarrow> run_catching cs s'
      | Thrown e s' \<Rightarrow> run_catching cs s'
      | Blocked s' \<Rightarrow> s')"

text \<open>
  The protocol of a handle, on what the caller holds: acquire only while holding nothing,
  release only what is held. \<open>follow h cs\<close> is what is held after the calls \<open>cs\<close>, or \<open>None\<close>
  when a call breaks the protocol.
\<close>

datatype held = Nothing | HoldsWrite | HoldsRead

fun follow :: "held \<Rightarrow> call list \<Rightarrow> held option" where
  "follow h [] = Some h"
| "follow Nothing (WriteLock # cs) = follow HoldsWrite cs"
| "follow Nothing (ReadLock # cs) = follow HoldsRead cs"
| "follow HoldsWrite (WriteUnlock # cs) = follow Nothing cs"
| "follow HoldsRead (ReadUnlock # cs) = follow Nothing cs"
| "follow h (c # cs) = None"

text \<open>The value of the lock word that stands for what one handle alone holds.\<close>

fun word_for :: "held \<Rightarrow> int" where
  "word_for Nothing = 0"
| "word_for HoldsWrite = - 1"
| "word_for HoldsRead = 1"

section \<open>Two handles on one buffer, in two agents\<close>

text \<open>
  Handles in different threads share the buffer and nothing else. Each call is cut at its
  accesses to the shared memory, the calls of \<^verbatim>\<open>Atomics\<close>: one step of an agent is one such
  access together with the local computation up to the next one. \<open>control\<close> says where in
  which method the agent is:

  \<^item> \<open>Idle\<close>: in no method; the next step is a call, with its checks of the flags;
  \<^item> \<open>writeLock_compareExchange\<close>: at the loop test of \<^verbatim>\<open>writeLock\<close>;
  \<^item> \<open>writeLock_wait lockState\<close>: about to call \<^verbatim>\<open>Atomics.wait\<close> in the loop body;
  \<^item> \<open>writeLock_asleep\<close>: asleep in that call;
  \<^item> \<open>writeLock_notify\<close>: after the loop, about to notify and to set the flag;
  \<^item> \<open>writeUnlock_compareExchange\<close>, \<open>writeUnlock_notify\<close>: the two accesses of
    \<^verbatim>\<open>writeUnlock\<close>;
  \<^item> \<open>readLock_compareExchange lockState\<close>, \<open>readLock_wait\<close>, \<open>readLock_asleep\<close>,
    \<open>readLock_notify\<close>: the same points of \<^verbatim>\<open>readLock\<close>;
  \<^item> \<open>readUnlock_compareExchange lockState\<close>, \<open>readUnlock_notify\<close>: the loop test of
    \<^verbatim>\<open>readUnlock\<close> and the notification after it.
\<close>

datatype control =
    Idle
  | writeLock_compareExchange
  | writeLock_wait int
  | writeLock_asleep
  | writeLock_notify
  | writeUnlock_compareExchange
  | writeUnlock_notify
  | readLock_compareExchange int
  | readLock_wait
  | readLock_asleep
  | readLock_notify
  | readUnlock_compareExchange int
  | readUnlock_notify

text \<open>The local part of a handle: where it is, its two flags, and the error its last call
  threw, if it threw.\<close>

record handle =
  control :: control
  holdsWrite :: bool
  holdsRead :: bool
  threw :: "error option"

definition throw :: "error \<Rightarrow> handle \<Rightarrow> handle" where
  "throw e h = h\<lparr>control := Idle, threw := Some e\<rparr>"

text \<open>Entering a method: the checks of the flags, which touch no shared memory.\<close>

fun enter :: "call \<Rightarrow> handle \<Rightarrow> handle" where
  "enter WriteLock h =
     (if holdsRead h then
        throw (Error ''Cannot acquire write lock without releasing read lock first'') h
      else if holdsWrite h then
        throw (Error ''Cannot acquire write lock while already holding write lock'') h
      else h\<lparr>control := writeLock_compareExchange, threw := None\<rparr>)"
| "enter WriteUnlock h =
     (if \<not> holdsWrite h then
        throw (Error ''Cannot release write lock without acquiring write lock first'') h
      else if holdsRead h then
        throw (Error ''Semaphore corrupted: write and read lock held at the same time'') h
      else h\<lparr>control := writeUnlock_compareExchange, threw := None\<rparr>)"
| "enter ReadLock h =
     (if holdsWrite h then
        throw (Error ''Cannot acquire read lock without releasing write lock first'') h
      else if holdsRead h then
        throw (Error ''Cannot acquire read lock while already holding read lock'') h
      else h\<lparr>control := readLock_compareExchange UNLOCKED, threw := None\<rparr>)"
| "enter ReadUnlock h =
     (if \<not> holdsRead h then
        throw (Error ''Cannot release read lock without acquiring read lock first'') h
      else if holdsWrite h then
        throw (Error ''Semaphore corrupted: write and read lock held at the same time'') h
      else h\<lparr>control := readUnlock_compareExchange 1, threw := None\<rparr>)"

text \<open>
  One step of a handle on the memory \<open>b\<close>, by where the handle is. The call \<open>c\<close> is the
  method its caller invokes next; it matters only when the handle is idle. The result is
  the memory, the handle, and whether the step notified the sleepers. A sleeping handle
  does not move by itself.
\<close>

fun step_at ::
  "control \<Rightarrow> call \<Rightarrow> ArrayBuffer \<Rightarrow> handle \<Rightarrow> ArrayBuffer \<times> handle \<times> bool" where
  "step_at Idle c b h = (b, enter c h, False)"
| "step_at writeLock_compareExchange c b h =
     (case Atomics_compareExchange b BYTE_OFFSET UNLOCKED WRITE_LOCKED of
        Inl e \<Rightarrow> (b, throw e h, False)
      | Inr (lockState, b') \<Rightarrow>
          if lockState \<noteq> UNLOCKED
          then (b', h\<lparr>control := writeLock_wait lockState\<rparr>, False)
          else (b', h\<lparr>control := writeLock_notify\<rparr>, False))"
| "step_at (writeLock_wait lockState) c b h =
     (case Atomics_wait b BYTE_OFFSET lockState of
        Inl e \<Rightarrow> (b, throw e h, False)
      | Inr None \<Rightarrow> (b, h\<lparr>control := writeLock_asleep\<rparr>, False)
      | Inr (Some r) \<Rightarrow> (b, h\<lparr>control := writeLock_compareExchange\<rparr>, False))"
| "step_at writeLock_asleep c b h = (b, h, False)"
| "step_at writeLock_notify c b h =
     (case Atomics_notify b BYTE_OFFSET of
        Some e \<Rightarrow> (b, throw e h, False)
      | None \<Rightarrow> (b, h\<lparr>control := Idle, holdsWrite := True\<rparr>, shared b))"
| "step_at writeUnlock_compareExchange c b h =
     (case Atomics_compareExchange b BYTE_OFFSET WRITE_LOCKED UNLOCKED of
        Inl e \<Rightarrow> (b, throw e h, False)
      | Inr (old, b') \<Rightarrow>
          if old \<noteq> WRITE_LOCKED
          then (b', throw (Error
            ''Semaphore corrupted: holding write lock, but unable to unlock'') h, False)
          else (b', h\<lparr>control := writeUnlock_notify\<rparr>, False))"
| "step_at writeUnlock_notify c b h =
     (case Atomics_notify b BYTE_OFFSET of
        Some e \<Rightarrow> (b, throw e h, False)
      | None \<Rightarrow> (b, h\<lparr>control := Idle, holdsWrite := False\<rparr>, shared b))"
| "step_at (readLock_compareExchange lockState) c b h =
     (case Atomics_compareExchange b BYTE_OFFSET lockState (lockState + 1) of
        Inl e \<Rightarrow> (b, throw e h, False)
      | Inr (newLockState, b') \<Rightarrow>
          if newLockState \<noteq> lockState then
            (if newLockState = - 1
             then (b', h\<lparr>control := readLock_wait\<rparr>, False)
             else (b', h\<lparr>control := readLock_compareExchange newLockState\<rparr>, False))
          else (b', h\<lparr>control := readLock_notify\<rparr>, False))"
| "step_at readLock_wait c b h =
     (case Atomics_wait b BYTE_OFFSET WRITE_LOCKED of
        Inl e \<Rightarrow> (b, throw e h, False)
      | Inr None \<Rightarrow> (b, h\<lparr>control := readLock_asleep\<rparr>, False)
      | Inr (Some r) \<Rightarrow> (b, h\<lparr>control := readLock_compareExchange UNLOCKED\<rparr>, False))"
| "step_at readLock_asleep c b h = (b, h, False)"
| "step_at readLock_notify c b h =
     (case Atomics_notify b BYTE_OFFSET of
        Some e \<Rightarrow> (b, throw e h, False)
      | None \<Rightarrow> (b, h\<lparr>control := Idle, holdsRead := True\<rparr>, shared b))"
| "step_at (readUnlock_compareExchange lockState) c b h =
     (case Atomics_compareExchange b BYTE_OFFSET lockState (lockState - 1) of
        Inl e \<Rightarrow> (b, throw e h, False)
      | Inr (newLockState, b') \<Rightarrow>
          if newLockState \<noteq> lockState then
            (if newLockState = WRITE_LOCKED
             then (b', throw (Error
               ''Semaphore corrupted: Read lock was overridden by write lock'') h, False)
             else (b', h\<lparr>control := readUnlock_compareExchange newLockState\<rparr>, False))
          else (b', h\<lparr>control := readUnlock_notify\<rparr>, False))"
| "step_at readUnlock_notify c b h =
     (case Atomics_notify b BYTE_OFFSET of
        Some e \<Rightarrow> (b, throw e h, False)
      | None \<Rightarrow> (b, h\<lparr>control := Idle, holdsRead := False\<rparr>, shared b))"

definition handle_step ::
  "call \<Rightarrow> ArrayBuffer \<Rightarrow> handle \<Rightarrow> ArrayBuffer \<times> handle \<times> bool" where
  "handle_step c b h = step_at (control h) c b h"

text \<open>
  A notification wakes a handle asleep in \<^verbatim>\<open>Atomics.wait\<close>: \<^verbatim>\<open>writeLock\<close> goes on with its
  loop test, \<^verbatim>\<open>readLock\<close> sets \<open>lockState\<close> to \<open>UNLOCKED\<close> first. On a buffer that is not
  shared \<^verbatim>\<open>Atomics.notify\<close> wakes nobody.
\<close>

fun woken :: "control \<Rightarrow> control" where
  "woken writeLock_asleep = writeLock_compareExchange"
| "woken readLock_asleep = readLock_compareExchange UNLOCKED"
| "woken x = x"

definition wake :: "handle \<Rightarrow> handle" where
  "wake h = h\<lparr>control := woken (control h)\<rparr>"

text \<open>The system: the shared buffer and the two handles \<open>A\<close> and \<open>B\<close>. A schedule says
  which handle moves next and which method it calls if it is idle.\<close>

record system =
  memory :: ArrayBuffer
  handleA :: handle
  handleB :: handle

datatype who = A | B

fun system_step :: "system \<Rightarrow> who \<times> call \<Rightarrow> system" where
  "system_step \<sigma> (A, c) =
     (case handle_step c (memory \<sigma>) (handleA \<sigma>) of
        (b, h, notified) \<Rightarrow>
          \<lparr>memory = b, handleA = h,
           handleB = (if notified then wake (handleB \<sigma>) else handleB \<sigma>)\<rparr>)"
| "system_step \<sigma> (B, c) =
     (case handle_step c (memory \<sigma>) (handleB \<sigma>) of
        (b, h, notified) \<Rightarrow>
          \<lparr>memory = b,
           handleA = (if notified then wake (handleA \<sigma>) else handleA \<sigma>),
           handleB = h\<rparr>)"

definition execute :: "(who \<times> call) list \<Rightarrow> system \<Rightarrow> system" where
  "execute schedule \<sigma> = foldl system_step \<sigma> schedule"

text \<open>A handle as the constructor leaves it, and the system of two such handles on the
  buffer \<open>b\<close>.\<close>

definition fresh :: handle where
  "fresh = \<lparr>control = Idle, holdsWrite = False, holdsRead = False, threw = None\<rparr>"

definition attached :: "ArrayBuffer \<Rightarrow> system" where
  "attached b = \<lparr>memory = b, handleA = fresh, handleB = fresh\<rparr>"

text \<open>
  A write acquisition is outstanding from the compare-and-swap of \<^verbatim>\<open>writeLock\<close> that
  stored \<open>WRITE_LOCKED\<close> to the compare-and-swap of \<^verbatim>\<open>writeUnlock\<close> that stores \<open>UNLOCKED\<close>:
  the handle has left the loop of \<^verbatim>\<open>writeLock\<close>, or its flag is set and it has not yet
  passed the compare-and-swap of \<^verbatim>\<open>writeUnlock\<close>. A read acquisition likewise.
\<close>

definition write_outstanding :: "handle \<Rightarrow> bool" where
  "write_outstanding h =
     (control h = writeLock_notify \<or> (holdsWrite h \<and> control h \<noteq> writeUnlock_notify))"

definition read_outstanding :: "handle \<Rightarrow> bool" where
  "read_outstanding h =
     (control h = readLock_notify \<or> (holdsRead h \<and> control h \<noteq> readUnlock_notify))"

text \<open>
  What ties the flags and the local \<open>lockState\<close> of a handle to where it is, in a system
  of two handles: no flag is set inside an acquiring method, the matching flag is set
  inside a releasing one, and \<open>lockState\<close> is a number of readers.
\<close>

fun flags_at :: "control \<Rightarrow> bool \<Rightarrow> bool \<Rightarrow> bool" where
  "flags_at Idle w r = (\<not> (w \<and> r))"
| "flags_at writeUnlock_compareExchange w r = (w \<and> \<not> r)"
| "flags_at writeUnlock_notify w r = (w \<and> \<not> r)"
| "flags_at (readLock_compareExchange lockState) w r =
     (\<not> w \<and> \<not> r \<and> (lockState = 0 \<or> lockState = 1 \<or> lockState = 2))"
| "flags_at (readUnlock_compareExchange lockState) w r =
     (r \<and> \<not> w \<and> (lockState = 1 \<or> lockState = 2))"
| "flags_at readUnlock_notify w r = (r \<and> \<not> w)"
| "flags_at x w r = (\<not> w \<and> \<not> r)"

definition local_ok :: "handle \<Rightarrow> bool" where
  "local_ok h = flags_at (control h) (holdsWrite h) (holdsRead h)"

text \<open>
  The invariant of the system: the lock word is \<open>-1\<close> with exactly one write acquisition
  and no read acquisition outstanding, or it is the number of outstanding read
  acquisitions with no write acquisition outstanding. \<open>word_ok w wh rh wk rk\<close> says so of
  the word \<open>w\<close> and of what the two handles have outstanding.
\<close>

definition word_ok :: "32 word \<Rightarrow> bool \<Rightarrow> bool \<Rightarrow> bool \<Rightarrow> bool \<Rightarrow> bool" where
  "word_ok w wh rh wk rk =
     (if wh \<or> wk then w = - 1 \<and> \<not> (wh \<and> wk) \<and> \<not> rh \<and> \<not> rk
      else w = of_bool rh + of_bool rk)"

definition coherent :: "ArrayBuffer \<Rightarrow> handle \<Rightarrow> handle \<Rightarrow> bool" where
  "coherent b h k =
     (0 < view_length b \<and> local_ok h \<and> local_ok k \<and>
      word_ok (get_int32 b BYTE_OFFSET) (write_outstanding h) (read_outstanding h)
        (write_outstanding k) (read_outstanding k))"

section \<open>Handles and runs the theorems are tried on\<close>

text \<open>The handle \<^verbatim>\<open>Semaphore.new()\<close> returns.\<close>

definition created :: Semaphore where
  "created = \<lparr>ptr = new_SharedArrayBuffer 4, priv_haveWriteLock = False,
     priv_haveReadLock = False\<rparr>"

text \<open>A handle on a word that counts \<open>2^31 - 1\<close> readers, the largest 32-bit value.\<close>

definition saturated :: Semaphore where
  "saturated = \<lparr>ptr = \<lparr>bytes = [255, 255, 255, 127], shared = True\<rparr>,
     priv_haveWriteLock = False, priv_haveReadLock = False\<rparr>"

text \<open>That handle with the word at \<open>- 2^31\<close>, holding a read lock.\<close>

definition wrapped :: Semaphore where
  "wrapped = \<lparr>ptr = \<lparr>bytes = [0, 0, 0, 128], shared = True\<rparr>,
     priv_haveWriteLock = False, priv_haveReadLock = True\<rparr>"

text \<open>
  A schedule of the two handles: \<open>B\<close> takes a read lock; \<open>A\<close> calls \<^verbatim>\<open>writeLock\<close>, reads 1 and
  goes to sleep on it; \<open>B\<close> releases, which wakes \<open>A\<close>; \<open>A\<close> stores \<open>-1\<close> and returns.
\<close>

definition handover :: "(who \<times> call) list" where
  "handover =
     [(B, ReadLock), (B, ReadLock), (B, ReadLock),
      (A, WriteLock), (A, WriteLock), (A, WriteLock),
      (B, ReadUnlock), (B, ReadUnlock), (B, ReadUnlock),
      (A, WriteLock), (A, WriteLock)]"

text \<open>What a handle that holds \<open>h\<close> alone looks like: its flags and the lock word.\<close>

fun holding :: "held \<Rightarrow> Semaphore \<Rightarrow> bool" where
  "holding Nothing s = (\<not> haveWriteLock s \<and> \<not> haveReadLock s \<and> lockWord s = 0)"
| "holding HoldsWrite s = (haveWriteLock s \<and> \<not> haveReadLock s \<and> lockWord s = - 1)"
| "holding HoldsRead s = (haveReadLock s \<and> \<not> haveWriteLock s \<and> lockWord s = 1)"

section \<open>Facts about the platform\<close>

lemma horner_sum_le_bytes: "horner_sum uint 256 (le_bytes n u) = u mod 256 ^ n"
proof (induction n arbitrary: u)
  case 0
  show ?case by simp
next
  case (Suc n)
  have "uint (word_of_int u :: 8 word) = u mod 256"
    by (simp add: uint_word_of_int take_bit_eq_mod)
  then show ?case
    using Suc [of "u div 256"] by (simp add: zmod_zmult2_eq)
qed

lemma length_le_bytes: "length (le_bytes n u) = n"
  by (induction n arbitrary: u) simp_all

lemma length_bytes_of_int32: "length (bytes_of_int32 w) = 4"
  by (simp add: bytes_of_int32_def length_le_bytes)

text \<open>Storing an element and loading it gives it back.\<close>

lemma int32_of_bytes_of_int32: "int32_of_bytes (bytes_of_int32 w) = w"
proof -
  have "(256::int) ^ 4 = 2 ^ 32"
    by simp
  then have "uint w mod 256 ^ 4 = uint w"
    using uint_bounded [of w] by (simp del: power_numeral)
  then show ?thesis
    unfolding int32_of_bytes_def bytes_of_int32_def horner_sum_le_bytes by simp
qed

lemma byteLength_set_int32:
  "4 * i + 4 \<le> byteLength b \<Longrightarrow> byteLength (set_int32 b i w) = byteLength b"
  by (simp add: byteLength_def set_int32_def length_bytes_of_int32)

lemma view_length_set_int32:
  "i < view_length b \<Longrightarrow> view_length (set_int32 b i w) = view_length b"
  by (simp add: view_length_def byteLength_set_int32)

lemma get_set_int32:
  assumes "i < view_length b"
  shows "get_int32 (set_int32 b i w) i = w"
proof -
  from assms have "4 * i \<le> length (bytes b)"
    by (simp add: view_length_def byteLength_def)
  then show ?thesis
    by (simp add: get_int32_def set_int32_def length_bytes_of_int32
        int32_of_bytes_of_int32)
qed

lemma sint_eq_D: "sint w = k \<Longrightarrow> w = ToInt32 k"
  by (auto simp: ToInt32_def)

lemma view_length_pos: "4 \<le> byteLength b \<longleftrightarrow> 0 < view_length b"
  by (auto simp: view_length_def)

text \<open>The three calls of \<^verbatim>\<open>Atomics\<close> on element 0 of a view that has one.\<close>

lemma cas0:
  assumes "0 < view_length b"
  shows "Atomics_compareExchange b BYTE_OFFSET e r =
    Inr (sint (get_int32 b BYTE_OFFSET),
         if get_int32 b BYTE_OFFSET = ToInt32 e
         then set_int32 b BYTE_OFFSET (ToInt32 r) else b)"
  using assms by (simp add: Atomics_compareExchange_def BYTE_OFFSET_def Let_def)

lemma notify0: "0 < view_length b \<Longrightarrow> Atomics_notify b BYTE_OFFSET = None"
  by (simp add: Atomics_notify_def BYTE_OFFSET_def)

lemma get_set0:
  "0 < view_length b \<Longrightarrow> get_int32 (set_int32 b BYTE_OFFSET w) BYTE_OFFSET = w"
  by (simp add: get_set_int32 BYTE_OFFSET_def)

lemma view_set0: "0 < view_length b \<Longrightarrow> 0 < view_length (set_int32 b BYTE_OFFSET w)"
  by (simp add: view_length_set_int32 BYTE_OFFSET_def)

section \<open>One handle, no other agent\<close>

declare writeLock_loop.simps [simp del] readLock_loop.simps [simp del]
  readUnlock_loop.simps [simp del]

lemma compareExchange_lockWord:
  assumes "0 < view_length (ptr s)"
  shows "Atomics_compareExchange (ptr s) BYTE_OFFSET e r =
    Inr (sint (lockWord s),
         if lockWord s = ToInt32 e then set_int32 (ptr s) BYTE_OFFSET (ToInt32 r) else ptr s)"
  using assms by (simp add: cas0 lockWord_def)

lemma lockWord_stored:
  "0 < view_length (ptr s) \<Longrightarrow>
   lockWord (s\<lparr>ptr := set_int32 (ptr s) BYTE_OFFSET w\<rparr>) = w"
  by (simp add: lockWord_def get_set0)

lemma lockWord_flags [simp]:
  "lockWord (s\<lparr>priv_haveWriteLock := x\<rparr>) = lockWord s"
  "lockWord (s\<lparr>priv_haveReadLock := y\<rparr>) = lockWord s"
  by (simp_all add: lockWord_def)

text \<open>What the loops do on a word that nobody else changes.\<close>

lemma writeLock_loop_unlocked:
  assumes "0 < view_length (ptr s)" and "lockWord s = 0"
  shows "writeLock_loop s = Returned (s\<lparr>ptr := set_int32 (ptr s) BYTE_OFFSET (- 1)\<rparr>)"
  using assms
  by (subst writeLock_loop.simps)
    (simp add: compareExchange_lockWord UNLOCKED_def WRITE_LOCKED_def ToInt32_def)

lemma readLock_loop_exact:
  assumes "0 < view_length (ptr s)" and "lockState = sint (lockWord s)"
  shows "readLock_loop s lockState =
    Returned (s\<lparr>ptr := set_int32 (ptr s) BYTE_OFFSET (lockWord s + 1)\<rparr>)"
  using assms
  by (subst readLock_loop.simps) (simp add: compareExchange_lockWord ToInt32_def)

lemma same_ptr [simp]: "s\<lparr>ptr := ptr s\<rparr> = s"
  by simp

lemma readLock_loop_not_write_locked:
  assumes v: "0 < view_length (ptr s)" and w: "lockWord s \<noteq> - 1"
  shows "readLock_loop s UNLOCKED =
    Returned (s\<lparr>ptr := set_int32 (ptr s) BYTE_OFFSET (lockWord s + 1)\<rparr>)"
proof (cases "lockWord s = 0")
  case True
  with v show ?thesis
    by (simp add: readLock_loop_exact UNLOCKED_def)
next
  case False
  from w have "sint (lockWord s) \<noteq> - 1"
    by (auto dest: sint_eq_D simp: ToInt32_def)
  moreover from False have "sint (lockWord s) \<noteq> 0"
    by (auto dest: sint_eq_D simp: ToInt32_def)
  ultimately show ?thesis
    using v False
    by (subst readLock_loop.simps)
      (simp add: compareExchange_lockWord UNLOCKED_def ToInt32_def readLock_loop_exact)
qed

lemma readUnlock_loop_exact:
  assumes "0 < view_length (ptr s)" and "lockState = sint (lockWord s)"
  shows "readUnlock_loop s lockState =
    Returned (s\<lparr>ptr := set_int32 (ptr s) BYTE_OFFSET (lockWord s - 1)\<rparr>)"
  using assms
  by (subst readUnlock_loop.simps) (simp add: compareExchange_lockWord ToInt32_def)

lemma readUnlock_loop_not_write_locked:
  assumes v: "0 < view_length (ptr s)" and w: "lockWord s \<noteq> - 1"
  shows "readUnlock_loop s 1 =
    Returned (s\<lparr>ptr := set_int32 (ptr s) BYTE_OFFSET (lockWord s - 1)\<rparr>)"
proof (cases "lockWord s = 1")
  case True
  with v show ?thesis
    by (simp add: readUnlock_loop_exact)
next
  case False
  from w have "sint (lockWord s) \<noteq> - 1"
    by (auto dest: sint_eq_D simp: ToInt32_def)
  moreover from False have "sint (lockWord s) \<noteq> 1"
    by (auto dest: sint_eq_D simp: ToInt32_def)
  ultimately show ?thesis
    using v False
    by (subst readUnlock_loop.simps)
      (simp add: compareExchange_lockWord WRITE_LOCKED_def ToInt32_def readUnlock_loop_exact)
qed

lemma readUnlock_loop_write_locked:
  assumes "0 < view_length (ptr s)" and "lockWord s = - 1" and "ToInt32 lockState \<noteq> - 1"
  shows "readUnlock_loop s lockState =
    Thrown (Error ''Semaphore corrupted: Read lock was overridden by write lock'') s"
proof -
  from assms(3) have "lockState \<noteq> - 1"
    by (auto simp: ToInt32_def)
  with assms show ?thesis
    by (subst readUnlock_loop.simps)
      (simp add: compareExchange_lockWord WRITE_LOCKED_def)
qed

text \<open>The four methods, where they succeed.\<close>

lemma writeLock_unlocked:
  assumes "0 < view_length (ptr s)" and "\<not> haveWriteLock s" and "\<not> haveReadLock s"
    and "lockWord s = 0"
  shows "writeLock s = Returned (s\<lparr>ptr := set_int32 (ptr s) BYTE_OFFSET (- 1),
    priv_haveWriteLock := True\<rparr>)"
  using assms by (simp add: writeLock_def writeLock_loop_unlocked notify0 view_set0)

lemma writeUnlock_write_locked:
  assumes "0 < view_length (ptr s)" and "haveWriteLock s" and "\<not> haveReadLock s"
    and "lockWord s = - 1"
  shows "writeUnlock s = Returned (s\<lparr>ptr := set_int32 (ptr s) BYTE_OFFSET 0,
    priv_haveWriteLock := False\<rparr>)"
  using assms
  by (simp add: writeUnlock_def compareExchange_lockWord notify0 view_set0
      WRITE_LOCKED_def UNLOCKED_def ToInt32_def)

lemma readLock_not_write_locked:
  assumes "0 < view_length (ptr s)" and "\<not> haveWriteLock s" and "\<not> haveReadLock s"
    and "lockWord s \<noteq> - 1"
  shows "readLock s = Returned (s\<lparr>ptr := set_int32 (ptr s) BYTE_OFFSET (lockWord s + 1),
    priv_haveReadLock := True\<rparr>)"
  using assms by (simp add: readLock_def readLock_loop_not_write_locked notify0 view_set0)

lemma readUnlock_not_write_locked:
  assumes "0 < view_length (ptr s)" and "haveReadLock s" and "\<not> haveWriteLock s"
    and "lockWord s \<noteq> - 1"
  shows "readUnlock s = Returned (s\<lparr>ptr := set_int32 (ptr s) BYTE_OFFSET (lockWord s - 1),
    priv_haveReadLock := False\<rparr>)"
  using assms by (simp add: readUnlock_def readUnlock_loop_not_write_locked notify0 view_set0)

lemma created_facts:
  "0 < view_length (ptr created)" "\<not> haveWriteLock created" "\<not> haveReadLock created"
  "lockWord created = 0"
  by code_simp+


section \<open>The claims about one handle\<close>

text \<open>
  C6. The basic write scenario. \<^verbatim>\<open>Semaphore.new()\<close> returns a handle whose lock word is 0
  and whose flags are false; \<^verbatim>\<open>writeLock\<close> on it returns, with the word at \<open>-1\<close> and
  \<^verbatim>\<open>haveWriteLock\<close> true; \<^verbatim>\<open>writeUnlock\<close> then returns, with the word at 0 and
  \<^verbatim>\<open>haveWriteLock\<close> false. No step throws or blocks.
\<close>

theorem basic_write_scenario:
  "\<exists>s0 s1 s2.
     Semaphore_new None = Inr s0 \<and>
     sint (lockWord s0) = 0 \<and> \<not> haveWriteLock s0 \<and> \<not> haveReadLock s0 \<and>
     writeLock s0 = Returned s1 \<and>
     sint (lockWord s1) = - 1 \<and> haveWriteLock s1 \<and> \<not> haveReadLock s1 \<and>
     writeUnlock s1 = Returned s2 \<and>
     sint (lockWord s2) = 0 \<and> \<not> haveWriteLock s2 \<and> \<not> haveReadLock s2"
proof -
  let ?s1 = "created\<lparr>ptr := set_int32 (ptr created) BYTE_OFFSET (- 1),
    priv_haveWriteLock := True\<rparr>"
  let ?s2 = "?s1\<lparr>ptr := set_int32 (ptr ?s1) BYTE_OFFSET 0, priv_haveWriteLock := False\<rparr>"
  have new: "Semaphore_new None = Inr created"
    by (simp add: Semaphore_new_def Semaphore_constructor_def
        SharedArrayBuffer_constructor_def byteLength_def new_SharedArrayBuffer_def
        created_def)
  have lock: "writeLock created = Returned ?s1"
    by (simp add: writeLock_unlocked created_facts)
  have s1: "0 < view_length (ptr ?s1)" "haveWriteLock ?s1" "\<not> haveReadLock ?s1"
    "lockWord ?s1 = - 1"
    using created_facts
    by (simp_all add: view_set0 haveWriteLock_def haveReadLock_def lockWord_def get_set0)
  have unlock: "writeUnlock ?s1 = Returned ?s2"
    by (rule writeUnlock_write_locked [OF s1])
  have s2: "lockWord ?s2 = 0" "\<not> haveWriteLock ?s2" "\<not> haveReadLock ?s2"
    using s1 by (simp_all add: haveWriteLock_def haveReadLock_def lockWord_def get_set0)
  from new lock unlock s1 s2 created_facts show ?thesis
    by (intro exI [of _ created] exI [of _ ?s1] exI [of _ ?s2]) simp
qed

text \<open>
  C4. Misuse that the flags show is refused before the shared word is touched: \<^verbatim>\<open>writeLock\<close>
  and \<^verbatim>\<open>readLock\<close> with either flag set, \<^verbatim>\<open>writeUnlock\<close> without \<^verbatim>\<open>haveWriteLock\<close> and
  \<^verbatim>\<open>readUnlock\<close> without \<^verbatim>\<open>haveReadLock\<close> throw an error of the kind ProtocolViolation and
  leave the handle and its memory as they were. Nothing is asked of the buffer, not even
  that it holds a lock word: the memory is not read.
\<close>

theorem local_misuse_refused:
  "(haveReadLock s \<or> haveWriteLock s \<longrightarrow>
      (\<exists>msg. writeLock s = Thrown (Error msg) s \<and> kind_of (Error msg) = ProtocolViolation)) \<and>
   (haveWriteLock s \<or> haveReadLock s \<longrightarrow>
      (\<exists>msg. readLock s = Thrown (Error msg) s \<and> kind_of (Error msg) = ProtocolViolation)) \<and>
   (\<not> haveWriteLock s \<longrightarrow>
      (\<exists>msg. writeUnlock s = Thrown (Error msg) s \<and> kind_of (Error msg) = ProtocolViolation)) \<and>
   (\<not> haveReadLock s \<longrightarrow>
      (\<exists>msg. readUnlock s = Thrown (Error msg) s \<and> kind_of (Error msg) = ProtocolViolation))"
  by (simp add: writeLock_def readLock_def writeUnlock_def readUnlock_def)

theorem local_misuse_refused_witness:
  "haveWriteLock (created\<lparr>priv_haveWriteLock := True\<rparr>) \<and>
   (\<exists>msg. writeLock (created\<lparr>priv_haveWriteLock := True\<rparr>) =
      Thrown (Error msg) (created\<lparr>priv_haveWriteLock := True\<rparr>) \<and>
      kind_of (Error msg) = ProtocolViolation) \<and>
   (\<exists>msg. readLock (created\<lparr>priv_haveWriteLock := True\<rparr>) =
      Thrown (Error msg) (created\<lparr>priv_haveWriteLock := True\<rparr>) \<and>
      kind_of (Error msg) = ProtocolViolation) \<and>
   \<not> haveWriteLock created \<and> \<not> haveReadLock created \<and>
   (\<exists>msg. writeUnlock created = Thrown (Error msg) created \<and>
      kind_of (Error msg) = ProtocolViolation) \<and>
   (\<exists>msg. readUnlock created = Thrown (Error msg) created \<and>
      kind_of (Error msg) = ProtocolViolation)"
proof -
  have held: "haveWriteLock (created\<lparr>priv_haveWriteLock := True\<rparr>)"
    by (simp add: haveWriteLock_def)
  from held local_misuse_refused [of "created\<lparr>priv_haveWriteLock := True\<rparr>"]
    local_misuse_refused [of created] created_facts(2,3)
  show ?thesis
    by blast
qed

text \<open>
  C5. A release that finds the lock word at odds with the flag throws an error of the kind
  Corruption and changes nothing. \<^verbatim>\<open>writeUnlock\<close> with \<^verbatim>\<open>haveWriteLock\<close> set and a word that is
  not \<open>-1\<close> throws; it has no loop, so nothing is tried again. \<^verbatim>\<open>readUnlock\<close> with
  \<^verbatim>\<open>haveReadLock\<close> set and the word at \<open>-1\<close> throws and leaves the word at \<open>-1\<close>; and its loop
  throws in whichever iteration reads \<open>-1\<close>, for every \<open>lockState\<close> it may be trying.
\<close>

theorem release_detects_corruption:
  assumes "4 \<le> byteLength (ptr s)"
  shows
   "(haveWriteLock s \<and> lockWord s \<noteq> - 1 \<longrightarrow>
       (\<exists>msg. writeUnlock s = Thrown (Error msg) s \<and> kind_of (Error msg) = Corruption)) \<and>
    (haveReadLock s \<and> lockWord s = - 1 \<longrightarrow>
       (\<exists>msg. readUnlock s = Thrown (Error msg) s \<and> kind_of (Error msg) = Corruption) \<and>
       lockWord (state_of (readUnlock s)) = - 1) \<and>
    (lockWord s = - 1 \<and> ToInt32 lockState \<noteq> - 1 \<longrightarrow>
       readUnlock_loop s lockState =
         Thrown (Error ''Semaphore corrupted: Read lock was overridden by write lock'') s)"
proof -
  from assms have v: "0 < view_length (ptr s)"
    by (simp add: view_length_pos)
  have 1: "\<exists>msg. writeUnlock s = Thrown (Error msg) s \<and> kind_of (Error msg) = Corruption"
    if a: "haveWriteLock s \<and> lockWord s \<noteq> - 1"
  proof -
    from a have "sint (lockWord s) \<noteq> - 1"
      by (auto dest: sint_eq_D simp: ToInt32_def)
    with a v show ?thesis
      by (simp add: writeUnlock_def compareExchange_lockWord WRITE_LOCKED_def ToInt32_def)
  qed
  have 2: "(\<exists>msg. readUnlock s = Thrown (Error msg) s \<and> kind_of (Error msg) = Corruption) \<and>
      lockWord (state_of (readUnlock s)) = - 1"
    if a: "haveReadLock s \<and> lockWord s = - 1"
  proof -
    from a v have "readUnlock_loop s 1 =
        Thrown (Error ''Semaphore corrupted: Read lock was overridden by write lock'') s"
      by (simp add: readUnlock_loop_write_locked ToInt32_def)
    with a show ?thesis
      by (simp add: readUnlock_def)
  qed
  have 3: "readUnlock_loop s lockState =
      Thrown (Error ''Semaphore corrupted: Read lock was overridden by write lock'') s"
    if "lockWord s = - 1 \<and> ToInt32 lockState \<noteq> - 1"
    using that v by (simp add: readUnlock_loop_write_locked)
  from 1 2 3 show ?thesis
    by blast
qed

theorem release_detects_corruption_witness:
  "4 \<le> byteLength (ptr created) \<and>
   haveWriteLock (created\<lparr>priv_haveWriteLock := True\<rparr>) \<and>
   lockWord (created\<lparr>priv_haveWriteLock := True\<rparr>) \<noteq> - 1 \<and>
   (\<exists>msg. writeUnlock (created\<lparr>priv_haveWriteLock := True\<rparr>) =
      Thrown (Error msg) (created\<lparr>priv_haveWriteLock := True\<rparr>) \<and>
      kind_of (Error msg) = Corruption) \<and>
   haveReadLock (wrapped\<lparr>ptr := \<lparr>bytes = [255, 255, 255, 255], shared = True\<rparr>\<rparr>) \<and>
   lockWord (wrapped\<lparr>ptr := \<lparr>bytes = [255, 255, 255, 255], shared = True\<rparr>\<rparr>) = - 1 \<and>
   ToInt32 1 \<noteq> - 1 \<and>
   readUnlock_loop (wrapped\<lparr>ptr := \<lparr>bytes = [255, 255, 255, 255], shared = True\<rparr>\<rparr>) 1 =
     Thrown (Error ''Semaphore corrupted: Read lock was overridden by write lock'')
       (wrapped\<lparr>ptr := \<lparr>bytes = [255, 255, 255, 255], shared = True\<rparr>\<rparr>) \<and>
   (\<exists>msg. readUnlock (wrapped\<lparr>ptr := \<lparr>bytes = [255, 255, 255, 255], shared = True\<rparr>\<rparr>) =
      Thrown (Error msg) (wrapped\<lparr>ptr := \<lparr>bytes = [255, 255, 255, 255], shared = True\<rparr>\<rparr>) \<and>
      kind_of (Error msg) = Corruption)"
proof -
  let ?w = "created\<lparr>priv_haveWriteLock := True\<rparr>"
  let ?r = "wrapped\<lparr>ptr := \<lparr>bytes = [255, 255, 255, 255], shared = True\<rparr>\<rparr>"
  have w: "4 \<le> byteLength (ptr ?w)" "haveWriteLock ?w" "lockWord ?w \<noteq> - 1"
    by code_simp+
  have r: "4 \<le> byteLength (ptr ?r)" "haveReadLock ?r" "lockWord ?r = - 1"
    "ToInt32 1 \<noteq> - 1"
    by code_simp+
  have c: "4 \<le> byteLength (ptr created)"
    by code_simp
  from release_detects_corruption [OF w(1), of 1] w(2,3)
  have 1: "\<exists>msg. writeUnlock ?w = Thrown (Error msg) ?w \<and> kind_of (Error msg) = Corruption"
    by blast
  from release_detects_corruption [OF r(1), of 1] r(2,3,4)
  have 2: "readUnlock_loop ?r 1 =
      Thrown (Error ''Semaphore corrupted: Read lock was overridden by write lock'') ?r"
    and 3: "\<exists>msg. readUnlock ?r = Thrown (Error msg) ?r \<and> kind_of (Error msg) = Corruption"
    by blast+
  from c w r 1 2 3 show ?thesis
    by blast
qed

text \<open>
  C9. \<^verbatim>\<open>readUnlock\<close> on a handle whose \<^verbatim>\<open>haveReadLock\<close> is set while the lock word is 0 does
  not throw: the first compare-and-swap, from 1, reads 0; 0 is not \<open>WRITE_LOCKED\<close>, so it
  becomes \<open>lockState\<close>, and the second compare-and-swap stores \<open>0 - 1\<close>. The call returns
  with \<^verbatim>\<open>haveReadLock\<close> false and the word at \<open>-1\<close>, the value that means write-locked.
  (A handle with \<^verbatim>\<open>haveReadLock\<close> set has \<^verbatim>\<open>haveWriteLock\<close> clear, by the invariant of the
  flags.)
\<close>

theorem readUnlock_of_zero_write_locks:
  assumes "4 \<le> byteLength (ptr s)"
    and "haveReadLock s" and "\<not> haveWriteLock s"
    and "lockWord s = 0"
  shows "\<exists>s'. readUnlock s = Returned s' \<and> sint (lockWord s') = WRITE_LOCKED \<and>
    \<not> haveReadLock s' \<and> \<not> haveWriteLock s'"
proof -
  from assms(1) have v: "0 < view_length (ptr s)"
    by (simp add: view_length_pos)
  from assms(4) have "lockWord s \<noteq> - 1"
    by simp
  from readUnlock_not_write_locked [OF v assms(2,3) this] v assms show ?thesis
    by (simp add: lockWord_stored haveReadLock_def haveWriteLock_def WRITE_LOCKED_def)
qed

theorem readUnlock_of_zero_write_locks_witness:
  "4 \<le> byteLength (ptr (created\<lparr>priv_haveReadLock := True\<rparr>)) \<and>
   haveReadLock (created\<lparr>priv_haveReadLock := True\<rparr>) \<and>
   \<not> haveWriteLock (created\<lparr>priv_haveReadLock := True\<rparr>) \<and>
   lockWord (created\<lparr>priv_haveReadLock := True\<rparr>) = 0 \<and>
   (\<exists>s'. readUnlock (created\<lparr>priv_haveReadLock := True\<rparr>) = Returned s' \<and>
      sint (lockWord s') = WRITE_LOCKED \<and> \<not> haveReadLock s' \<and> \<not> haveWriteLock s')"
proof -
  let ?s = "created\<lparr>priv_haveReadLock := True\<rparr>"
  have h: "4 \<le> byteLength (ptr ?s)" "haveReadLock ?s" "\<not> haveWriteLock ?s" "lockWord ?s = 0"
    by code_simp+
  from readUnlock_of_zero_write_locks [OF h] h show ?thesis
    by blast
qed

text \<open>
  C10. \<^verbatim>\<open>readLock\<close> on a word that holds \<open>2147483647\<close>, with both flags clear, returns; the
  value it stores, \<open>2147483648\<close>, does not fit the element and wraps: the word is
  \<open>-2147483648\<close> afterwards, below \<open>-1\<close>.
\<close>

theorem readLock_wraps_at_max:
  assumes "4 \<le> byteLength (ptr s)"
    and "\<not> haveWriteLock s" and "\<not> haveReadLock s"
    and "sint (lockWord s) = 2147483647"
  shows "\<exists>s'. readLock s = Returned s' \<and> sint (lockWord s') = - 2147483648 \<and>
    sint (lockWord s') < - 1 \<and> haveReadLock s'"
proof -
  from assms(1) have v: "0 < view_length (ptr s)"
    by (simp add: view_length_pos)
  from assms(4) have w: "lockWord s = 2147483647"
    by (auto dest: sint_eq_D simp: ToInt32_def)
  then have "lockWord s \<noteq> - 1"
    by simp
  from readLock_not_write_locked [OF v assms(2,3) this] v w show ?thesis
    by (simp add: lockWord_stored haveReadLock_def)
qed

theorem readLock_wraps_at_max_witness:
  "4 \<le> byteLength (ptr saturated) \<and> \<not> haveWriteLock saturated \<and> \<not> haveReadLock saturated \<and>
   sint (lockWord saturated) = 2147483647 \<and>
   (\<exists>s'. readLock saturated = Returned s' \<and> sint (lockWord s') = - 2147483648 \<and>
      sint (lockWord s') < - 1 \<and> haveReadLock s')"
proof -
  have h: "4 \<le> byteLength (ptr saturated)" "\<not> haveWriteLock saturated"
    "\<not> haveReadLock saturated" "sint (lockWord saturated) = 2147483647"
    by code_simp+
  from readLock_wraps_at_max [OF h] h show ?thesis
    by blast
qed

text \<open>
  C3, as the code has it. With both flags clear and the word at \<open>n\<close>, \<open>0 \<le> n\<close> and
  \<open>n < 2147483647\<close>, \<^verbatim>\<open>readLock\<close> returns with the word at \<open>n + 1\<close> and \<^verbatim>\<open>haveReadLock\<close> set;
  with \<^verbatim>\<open>haveReadLock\<close> set, \<^verbatim>\<open>haveWriteLock\<close> clear and the word at \<open>n \<ge> 1\<close>, \<^verbatim>\<open>readUnlock\<close>
  returns with the word at \<open>n - 1\<close> and \<^verbatim>\<open>haveReadLock\<close> clear. The bound on \<open>n\<close> is needed
  for the first half only.
\<close>

theorem read_transitions:
  assumes "4 \<le> byteLength (ptr s)" and "sint (lockWord s) = n"
  shows
   "(\<not> haveWriteLock s \<and> \<not> haveReadLock s \<and> 0 \<le> n \<and> n < 2147483647 \<longrightarrow>
       (\<exists>s'. readLock s = Returned s' \<and> sint (lockWord s') = n + 1 \<and>
          haveReadLock s' \<and> \<not> haveWriteLock s')) \<and>
    (haveReadLock s \<and> \<not> haveWriteLock s \<and> 1 \<le> n \<longrightarrow>
       (\<exists>s'. readUnlock s = Returned s' \<and> sint (lockWord s') = n - 1 \<and>
          \<not> haveReadLock s' \<and> \<not> haveWriteLock s'))"
proof -
  from assms(1) have v: "0 < view_length (ptr s)"
    by (simp add: view_length_pos)
  from assms(2) have w: "lockWord s = word_of_int n"
    by (auto dest: sint_eq_D simp: ToInt32_def)
  have range: "- (2 ^ 31) \<le> n" "n < 2 ^ 31"
    using sint_ge [of "lockWord s"] sint_lt [of "lockWord s"] assms(2) by simp_all
  have up: "\<exists>s'. readLock s = Returned s' \<and> sint (lockWord s') = n + 1 \<and>
      haveReadLock s' \<and> \<not> haveWriteLock s'"
    if a: "\<not> haveWriteLock s \<and> \<not> haveReadLock s \<and> 0 \<le> n \<and> n < 2147483647"
  proof -
    from a assms(2) have free: "lockWord s \<noteq> - 1"
      by auto
    have "(word_of_int n + 1 :: 32 word) = word_of_int (n + 1)"
      by simp
    moreover have "sint (word_of_int (n + 1) :: 32 word) = n + 1"
      unfolding sint_sbintrunc'
      by (rule signed_take_bit_int_eq_self) (use a in simp_all)
    ultimately have "sint (lockWord s + 1) = n + 1"
      by (simp only: w)
    with readLock_not_write_locked [OF v _ _ free] a v show ?thesis
      by (simp add: lockWord_stored haveReadLock_def haveWriteLock_def)
  qed
  have down: "\<exists>s'. readUnlock s = Returned s' \<and> sint (lockWord s') = n - 1 \<and>
      \<not> haveReadLock s' \<and> \<not> haveWriteLock s'"
    if a: "haveReadLock s \<and> \<not> haveWriteLock s \<and> 1 \<le> n"
  proof -
    from a assms(2) have free: "lockWord s \<noteq> - 1"
      by auto
    have "(word_of_int n - 1 :: 32 word) = word_of_int (n - 1)"
      by simp
    moreover have "sint (word_of_int (n - 1) :: 32 word) = n - 1"
      unfolding sint_sbintrunc'
      by (rule signed_take_bit_int_eq_self) (use a range in simp_all)
    ultimately have "sint (lockWord s - 1) = n - 1"
      by (simp only: w)
    with readUnlock_not_write_locked [OF v _ _ free] a v show ?thesis
      by (simp add: lockWord_stored haveReadLock_def haveWriteLock_def)
  qed
  from up down show ?thesis
    by blast
qed

theorem read_transitions_witness:
  "4 \<le> byteLength (ptr created) \<and> sint (lockWord created) = 0 \<and>
   \<not> haveWriteLock created \<and> \<not> haveReadLock created \<and> (0::int) \<le> 0 \<and> (0::int) < 2147483647 \<and>
   (\<exists>s'. readLock created = Returned s' \<and> sint (lockWord s') = 0 + 1 \<and>
      haveReadLock s' \<and> \<not> haveWriteLock s') \<and>
   4 \<le> byteLength (ptr (state_of (readLock created))) \<and>
   sint (lockWord (state_of (readLock created))) = 1 \<and>
   haveReadLock (state_of (readLock created)) \<and>
   \<not> haveWriteLock (state_of (readLock created)) \<and> (1::int) \<le> 1 \<and>
   (\<exists>s'. readUnlock (state_of (readLock created)) = Returned s' \<and>
      sint (lockWord s') = 1 - 1 \<and> \<not> haveReadLock s' \<and> \<not> haveWriteLock s')"
proof -
  let ?r = "state_of (readLock created)"
  have c: "4 \<le> byteLength (ptr created)" "sint (lockWord created) = 0"
    "\<not> haveWriteLock created" "\<not> haveReadLock created"
    by code_simp+
  have r: "4 \<le> byteLength (ptr ?r)" "sint (lockWord ?r) = 1" "haveReadLock ?r"
    "\<not> haveWriteLock ?r"
    by code_simp+
  from read_transitions [OF c(1,2)] c(3,4)
  have 1: "\<exists>s'. readLock created = Returned s' \<and> sint (lockWord s') = 0 + 1 \<and>
      haveReadLock s' \<and> \<not> haveWriteLock s'"
    by simp
  from read_transitions [OF r(1,2)] r(3,4)
  have 2: "\<exists>s'. readUnlock ?r = Returned s' \<and> sint (lockWord s') = 1 - 1 \<and>
      \<not> haveReadLock s' \<and> \<not> haveWriteLock s'"
    by simp
  from c r 1 2 show ?thesis
    by simp
qed

text \<open>
  C3 as it is stated, for every \<open>n \<ge> 0\<close>, fails at the largest value the word can hold:
  \<open>saturated\<close> has both flags clear and the word at \<open>2147483647\<close>; \<^verbatim>\<open>readLock\<close> returns
  \<open>wrapped\<close>, whose word is \<open>-2147483648\<close> and not \<open>2147483647 + 1\<close>.
\<close>

theorem read_transitions_counterexample:
  "\<not> haveWriteLock saturated \<and> \<not> haveReadLock saturated \<and>
   sint (lockWord saturated) = 2147483647 \<and>
   readLock saturated = Returned wrapped \<and>
   sint (lockWord wrapped) = - 2147483648 \<and>
   sint (lockWord wrapped) \<noteq> 2147483647 + 1"
  by code_simp

subsection \<open>Calls that follow the protocol\<close>

lemma invoke_follow:
  assumes v: "0 < view_length (ptr s)" and h: "holding h s"
    and f: "follow h (c # cs) = Some h''"
  shows "\<exists>s' h'. invoke c s = Returned s' \<and> 0 < view_length (ptr s') \<and> holding h' s' \<and>
    follow h' cs = Some h''"
proof (cases h)
  case Nothing
  with h have s: "\<not> haveWriteLock s" "\<not> haveReadLock s" "lockWord s = 0"
    by simp_all
  then have free: "lockWord s \<noteq> - 1"
    by simp
  from f Nothing consider (w) "c = WriteLock" "follow HoldsWrite cs = Some h''"
    | (r) "c = ReadLock" "follow HoldsRead cs = Some h''"
    by (cases c) simp_all
  then show ?thesis
  proof cases
    case w
    let ?s' = "s\<lparr>ptr := set_int32 (ptr s) BYTE_OFFSET (- 1), priv_haveWriteLock := True\<rparr>"
    have "invoke c s = Returned ?s'"
      using w writeLock_unlocked [OF v s] by simp
    moreover have "0 < view_length (ptr ?s')" "holding HoldsWrite ?s'"
      using v s by (simp_all add: view_set0 haveWriteLock_def haveReadLock_def lockWord_def
          get_set0)
    ultimately show ?thesis
      using w by blast
  next
    case r
    let ?s' = "s\<lparr>ptr := set_int32 (ptr s) BYTE_OFFSET (lockWord s + 1),
      priv_haveReadLock := True\<rparr>"
    have "invoke c s = Returned ?s'"
      using r readLock_not_write_locked [OF v s(1,2) free] by simp
    moreover have "0 < view_length (ptr ?s')" "holding HoldsRead ?s'"
      using v s by (simp_all add: view_set0 haveWriteLock_def haveReadLock_def lockWord_def
          get_set0)
    ultimately show ?thesis
      using r by blast
  qed
next
  case HoldsWrite
  with h have s: "haveWriteLock s" "\<not> haveReadLock s" "lockWord s = - 1"
    by simp_all
  from f HoldsWrite have c: "c = WriteUnlock" "follow Nothing cs = Some h''"
    by (cases c; simp)+
  let ?s' = "s\<lparr>ptr := set_int32 (ptr s) BYTE_OFFSET 0, priv_haveWriteLock := False\<rparr>"
  have "invoke c s = Returned ?s'"
    using c writeUnlock_write_locked [OF v s] by simp
  moreover have "0 < view_length (ptr ?s')" "holding Nothing ?s'"
    using v s by (simp_all add: view_set0 haveWriteLock_def haveReadLock_def lockWord_def
        get_set0)
  ultimately show ?thesis
    using c by blast
next
  case HoldsRead
  with h have s: "haveReadLock s" "\<not> haveWriteLock s" "lockWord s = 1"
    by simp_all
  then have free: "lockWord s \<noteq> - 1"
    by simp
  from f HoldsRead have c: "c = ReadUnlock" "follow Nothing cs = Some h''"
    by (cases c; simp)+
  let ?s' = "s\<lparr>ptr := set_int32 (ptr s) BYTE_OFFSET (lockWord s - 1),
    priv_haveReadLock := False\<rparr>"
  have "invoke c s = Returned ?s'"
    using c readUnlock_not_write_locked [OF v s(1,2) free] by simp
  moreover have "0 < view_length (ptr ?s')" "holding Nothing ?s'"
    using v s by (simp_all add: view_set0 haveWriteLock_def haveReadLock_def lockWord_def
        get_set0)
  ultimately show ?thesis
    using c by blast
qed

lemma run_follow:
  assumes "0 < view_length (ptr s)" and "holding h s" and "follow h cs = Some h'"
  shows "\<exists>s'. run cs s = Returned s' \<and> holding h' s'"
  using assms
proof (induction cs arbitrary: h s)
  case Nil
  then show ?case
    by simp
next
  case (Cons c cs)
  from invoke_follow [OF Cons.prems] obtain s1 h1
    where 1: "invoke c s = Returned s1" "0 < view_length (ptr s1)" "holding h1 s1"
      "follow h1 cs = Some h'"
    by blast
  from Cons.IH [OF 1(2,3,4)] 1(1) show ?case
    by simp
qed

lemma holding_word: "holding h s \<Longrightarrow> sint (lockWord s) = word_for h"
  by (cases h) simp_all

text \<open>
  C1. On a handle that holds nothing and whose lock word is 0, every sequence of calls that
  follows the protocol runs to its end without an error and without blocking, and leaves
  the word at the value that stands for what is held then; once everything acquired has
  been released that value is 0, with both flags clear.
\<close>

theorem protocol_respecting_calls:
  assumes "4 \<le> byteLength (ptr s)"
    and "\<not> haveWriteLock s" and "\<not> haveReadLock s" and "lockWord s = 0"
    and "follow Nothing calls = Some h"
  shows "\<exists>s'. run calls s = Returned s' \<and> sint (lockWord s') = word_for h \<and>
    (h = Nothing \<longrightarrow> lockWord s' = 0 \<and> \<not> haveWriteLock s' \<and> \<not> haveReadLock s')"
proof -
  from assms(1) have v: "0 < view_length (ptr s)"
    by (simp add: view_length_pos)
  from assms(2,3,4) have "holding Nothing s"
    by simp
  from run_follow [OF v this assms(5)] obtain s'
    where s': "run calls s = Returned s'" "holding h s'"
    by blast
  from s'(2) have "h = Nothing \<longrightarrow> lockWord s' = 0 \<and> \<not> haveWriteLock s' \<and> \<not> haveReadLock s'"
    by auto
  with s' holding_word [OF s'(2)] show ?thesis
    by blast
qed

theorem protocol_respecting_calls_witness:
  "4 \<le> byteLength (ptr created) \<and> \<not> haveWriteLock created \<and> \<not> haveReadLock created \<and>
   lockWord created = 0 \<and>
   follow Nothing [ReadLock, ReadUnlock, WriteLock, WriteUnlock, ReadLock, ReadUnlock] =
     Some Nothing \<and>
   (\<exists>s'. run [ReadLock, ReadUnlock, WriteLock, WriteUnlock, ReadLock, ReadUnlock] created =
      Returned s' \<and> lockWord s' = 0 \<and> \<not> haveWriteLock s' \<and> \<not> haveReadLock s')"
proof -
  have h: "4 \<le> byteLength (ptr created)" "\<not> haveWriteLock created" "\<not> haveReadLock created"
    "lockWord created = 0"
    "follow Nothing [ReadLock, ReadUnlock, WriteLock, WriteUnlock, ReadLock, ReadUnlock] =
       Some Nothing"
    by code_simp+
  from protocol_respecting_calls [OF h] h show ?thesis
    by blast
qed

subsection \<open>The two flags\<close>

lemma writeLock_loop_flags:
  "priv_haveWriteLock (state_of (writeLock_loop s)) = priv_haveWriteLock s \<and>
   priv_haveReadLock (state_of (writeLock_loop s)) = priv_haveReadLock s"
proof (induction s rule: writeLock_loop.induct)
  case (1 s)
  show ?case
    by (subst (1 2) writeLock_loop.simps)
      (use 1 in \<open>auto split: sum.splits option.splits prod.splits\<close>)
qed

lemma readLock_loop_flags:
  "priv_haveWriteLock (state_of (readLock_loop s lockState)) = priv_haveWriteLock s \<and>
   priv_haveReadLock (state_of (readLock_loop s lockState)) = priv_haveReadLock s"
proof (induction s lockState rule: readLock_loop.induct)
  case (1 s lockState)
  show ?case
    by (subst (1 2) readLock_loop.simps)
      (use 1 in \<open>auto split: sum.splits option.splits prod.splits\<close>)
qed

lemma readUnlock_loop_flags:
  "priv_haveWriteLock (state_of (readUnlock_loop s lockState)) = priv_haveWriteLock s \<and>
   priv_haveReadLock (state_of (readUnlock_loop s lockState)) = priv_haveReadLock s"
proof (induction s lockState rule: readUnlock_loop.induct)
  case (1 s lockState)
  show ?case
    by (subst (1 2) readUnlock_loop.simps)
      (use 1 in \<open>auto split: sum.splits option.splits prod.splits\<close>)
qed

lemma writeLock_flags:
  assumes "\<not> (haveWriteLock s \<and> haveReadLock s)"
  shows "\<not> (haveWriteLock (state_of (writeLock s)) \<and> haveReadLock (state_of (writeLock s)))"
  using assms writeLock_loop_flags [of s]
  by (cases "writeLock_loop s")
    (auto simp: writeLock_def haveWriteLock_def haveReadLock_def split: option.splits)

lemma writeUnlock_flags:
  assumes "\<not> (haveWriteLock s \<and> haveReadLock s)"
  shows "\<not> (haveWriteLock (state_of (writeUnlock s)) \<and> haveReadLock (state_of (writeUnlock s)))"
  using assms
  by (auto simp: writeUnlock_def haveWriteLock_def haveReadLock_def
      split: sum.splits option.splits prod.splits)

lemma readLock_flags:
  assumes "\<not> (haveWriteLock s \<and> haveReadLock s)"
  shows "\<not> (haveWriteLock (state_of (readLock s)) \<and> haveReadLock (state_of (readLock s)))"
  using assms readLock_loop_flags [of s UNLOCKED]
  by (cases "readLock_loop s UNLOCKED")
    (auto simp: readLock_def haveWriteLock_def haveReadLock_def split: option.splits)

lemma readUnlock_flags:
  assumes "\<not> (haveWriteLock s \<and> haveReadLock s)"
  shows "\<not> (haveWriteLock (state_of (readUnlock s)) \<and> haveReadLock (state_of (readUnlock s)))"
  using assms readUnlock_loop_flags [of s 1]
  by (cases "readUnlock_loop s 1")
    (auto simp: readUnlock_def haveWriteLock_def haveReadLock_def split: option.splits)

lemma invoke_flags:
  assumes "\<not> (haveWriteLock s \<and> haveReadLock s)"
  shows "\<not> (haveWriteLock (state_of (invoke c s)) \<and> haveReadLock (state_of (invoke c s)))"
  using assms
  by (cases c) (simp_all add: writeLock_flags writeUnlock_flags readLock_flags readUnlock_flags)

lemma run_catching_flags:
  assumes "\<not> (haveWriteLock s \<and> haveReadLock s)"
  shows "\<not> (haveWriteLock (run_catching cs s) \<and> haveReadLock (run_catching cs s))"
  using assms
proof (induction cs arbitrary: s)
  case Nil
  then show ?case
    by simp
next
  case (Cons c cs)
  from invoke_flags [OF Cons.prems, of c]
  have "\<not> (haveWriteLock (state_of (invoke c s)) \<and> haveReadLock (state_of (invoke c s)))" .
  with Cons.IH [of "state_of (invoke c s)"] show ?case
    by (cases "invoke c s") simp_all
qed

text \<open>
  C7. \<^verbatim>\<open>haveWriteLock\<close> and \<^verbatim>\<open>haveReadLock\<close> are never both true: they are both false in the
  handle the constructor returns (through \<^verbatim>\<open>new\<close> or \<^verbatim>\<open>from\<close>), each of the four methods
  keeps them from being both true however it ends (returning, throwing or blocking), and
  so does every sequence of calls whose errors the caller catches.
\<close>

theorem flags_never_both:
  "(Semaphore_from b = Inr s0 \<longrightarrow> \<not> haveWriteLock s0 \<and> \<not> haveReadLock s0) \<and>
   (Semaphore_new ctor = Inr s1 \<longrightarrow> \<not> haveWriteLock s1 \<and> \<not> haveReadLock s1) \<and>
   (\<not> (haveWriteLock s \<and> haveReadLock s) \<longrightarrow>
      \<not> (haveWriteLock (state_of (invoke c s)) \<and> haveReadLock (state_of (invoke c s)))) \<and>
   (\<not> (haveWriteLock s \<and> haveReadLock s) \<longrightarrow>
      \<not> (haveWriteLock (run_catching cs s) \<and> haveReadLock (run_catching cs s)))"
proof -
  have "\<not> haveWriteLock s' \<and> \<not> haveReadLock s'" if "Semaphore_constructor x = Inr s'" for x s'
    using that
    by (auto simp: Semaphore_constructor_def haveWriteLock_def haveReadLock_def
        split: sum.splits)
  then show ?thesis
    using invoke_flags [of s c] run_catching_flags [of s cs]
    by (auto simp: Semaphore_from_def Semaphore_new_def Let_def)
qed

theorem flags_never_both_witness:
  "Semaphore_from (FixedLength (new_SharedArrayBuffer 4)) = Inr created \<and>
   Semaphore_new None = Inr created \<and>
   \<not> haveWriteLock created \<and> \<not> haveReadLock created \<and>
   \<not> (haveWriteLock (state_of (invoke ReadLock created)) \<and>
      haveReadLock (state_of (invoke ReadLock created))) \<and>
   \<not> (haveWriteLock (run_catching [ReadLock, WriteLock, ReadUnlock, ReadUnlock, WriteLock,
          ReadLock, WriteUnlock] created) \<and>
      haveReadLock (run_catching [ReadLock, WriteLock, ReadUnlock, ReadUnlock, WriteLock,
          ReadLock, WriteUnlock] created))"
proof -
  have c: "Semaphore_from (FixedLength (new_SharedArrayBuffer 4)) = Inr created"
    "Semaphore_new None = Inr created"
    by code_simp+
  from flags_never_both [of "FixedLength (new_SharedArrayBuffer 4)" created None created created ReadLock
      "[ReadLock, WriteLock, ReadUnlock, ReadUnlock, WriteLock, ReadLock, WriteUnlock]"] c
  show ?thesis
    by blast
qed

subsection \<open>Construction\<close>

lemma writeLock_without_word:
  assumes "view_length (ptr s) = 0" and "\<not> haveWriteLock s" and "\<not> haveReadLock s"
  shows "writeLock s = Thrown RangeError s"
  using assms
  by (simp add: writeLock_def writeLock_loop.simps [of s] Atomics_compareExchange_def
      BYTE_OFFSET_def)

text \<open>
  C8, as the code has it. Neither \<^verbatim>\<open>new\<close> nor \<^verbatim>\<open>from\<close> compares the size of the buffer with
  4. The only checks are the ones \<^verbatim>\<open>new Int32Array\<close> makes, so that \<^verbatim>\<open>from\<close> fails in two
  cases and in no other: with a \<^verbatim>\<open>TypeError\<close> on a detached buffer, and with a \<^verbatim>\<open>RangeError\<close>
  on a buffer of fixed length whose byte length is not a multiple of 4. On a buffer of
  fixed length whose byte length is a multiple of 4, the empty one too, and on a resizable
  buffer of any byte length, it returns a handle on the memory of the buffer with both
  flags false. \<^verbatim>\<open>new\<close> is \<^verbatim>\<open>from\<close> on the buffer its constructor makes for 4 bytes, and with
  the default \<^verbatim>\<open>SharedArrayBuffer\<close> (or with \<^verbatim>\<open>ArrayBuffer\<close>) it returns a handle on four zero
  bytes.
\<close>

theorem construction_checks_view_only:
  "Semaphore_from Detached = Inl TypeError \<and>
   Semaphore_from (Resizable b) =
     Inr \<lparr>ptr = b, priv_haveWriteLock = False, priv_haveReadLock = False\<rparr> \<and>
   Semaphore_from (FixedLength b) =
     (if byteLength b mod 4 = 0
      then Inr \<lparr>ptr = b, priv_haveWriteLock = False, priv_haveReadLock = False\<rparr>
      else Inl RangeError) \<and>
   Semaphore_new (Some ctor) = Semaphore_from (ctor 4) \<and>
   Semaphore_new None = Semaphore_from (FixedLength (new_SharedArrayBuffer 4)) \<and>
   Semaphore_new None =
     Inr \<lparr>ptr = \<lparr>bytes = [0, 0, 0, 0], shared = True\<rparr>, priv_haveWriteLock = False,
          priv_haveReadLock = False\<rparr> \<and>
   Semaphore_new (Some ArrayBuffer_constructor) =
     Inr \<lparr>ptr = \<lparr>bytes = [0, 0, 0, 0], shared = False\<rparr>, priv_haveWriteLock = False,
          priv_haveReadLock = False\<rparr>"
proof -
  have "Semaphore_from Detached = Inl TypeError"
    "Semaphore_from (Resizable b) =
       Inr \<lparr>ptr = b, priv_haveWriteLock = False, priv_haveReadLock = False\<rparr>"
    "Semaphore_from (FixedLength b) =
     (if byteLength b mod 4 = 0
      then Inr \<lparr>ptr = b, priv_haveWriteLock = False, priv_haveReadLock = False\<rparr>
      else Inl RangeError)"
    by (simp_all add: Semaphore_from_def Semaphore_constructor_def)
  moreover have "Semaphore_new (Some ctor) = Semaphore_from (ctor 4)"
    "Semaphore_new None = Semaphore_from (FixedLength (new_SharedArrayBuffer 4))"
    by (simp_all add: Semaphore_from_def Semaphore_new_def SharedArrayBuffer_constructor_def)
  moreover have "Semaphore_new None =
     Inr \<lparr>ptr = \<lparr>bytes = [0, 0, 0, 0], shared = True\<rparr>, priv_haveWriteLock = False,
          priv_haveReadLock = False\<rparr>"
    "Semaphore_new (Some ArrayBuffer_constructor) =
     Inr \<lparr>ptr = \<lparr>bytes = [0, 0, 0, 0], shared = False\<rparr>, priv_haveWriteLock = False,
          priv_haveReadLock = False\<rparr>"
    by code_simp+
  ultimately show ?thesis
    by blast
qed

text \<open>
  C8 as it is stated fails in both directions, on buffers of fixed length that are not
  detached. A buffer of 6 bytes is at least 4 bytes long and \<^verbatim>\<open>from\<close> throws on it; a
  buffer of 0 bytes is shorter than 4 bytes and \<^verbatim>\<open>from\<close> returns a handle on it, whose
  first use of the lock word then throws a \<^verbatim>\<open>RangeError\<close>.
\<close>

theorem construction_counterexample:
  "4 \<le> byteLength (new_ArrayBuffer 6) \<and>
   Semaphore_from (FixedLength (new_ArrayBuffer 6)) = Inl RangeError \<and>
   byteLength (new_ArrayBuffer 0) < 4 \<and>
   Semaphore_from (FixedLength (new_ArrayBuffer 0)) =
     Inr \<lparr>ptr = new_ArrayBuffer 0, priv_haveWriteLock = False, priv_haveReadLock = False\<rparr> \<and>
   writeLock \<lparr>ptr = new_ArrayBuffer 0, priv_haveWriteLock = False, priv_haveReadLock = False\<rparr> =
     Thrown RangeError
       \<lparr>ptr = new_ArrayBuffer 0, priv_haveWriteLock = False, priv_haveReadLock = False\<rparr>"
proof -
  let ?s = "\<lparr>ptr = new_ArrayBuffer 0, priv_haveWriteLock = False, priv_haveReadLock = False\<rparr>"
  have "4 \<le> byteLength (new_ArrayBuffer 6)"
    "Semaphore_from (FixedLength (new_ArrayBuffer 6)) = Inl RangeError"
    "byteLength (new_ArrayBuffer 0) < 4"
    "Semaphore_from (FixedLength (new_ArrayBuffer 0)) = Inr ?s"
    by code_simp+
  moreover have "view_length (ptr ?s) = 0" "\<not> haveWriteLock ?s" "\<not> haveReadLock ?s"
    by code_simp+
  then have "writeLock ?s = Thrown RangeError ?s"
    by (rule writeLock_without_word)
  ultimately show ?thesis
    by blast
qed

section \<open>Two handles: at most one writer\<close>

text \<open>The invariant does not tell the two handles apart, and a notification does not
  disturb it.\<close>

lemma coherent_sym: "coherent b h k = coherent b k h"
  by (auto simp: coherent_def word_ok_def add.commute)

lemma woken_not_outstanding:
  "woken x = writeLock_notify \<longleftrightarrow> x = writeLock_notify"
  "woken x = writeUnlock_notify \<longleftrightarrow> x = writeUnlock_notify"
  "woken x = readLock_notify \<longleftrightarrow> x = readLock_notify"
  "woken x = readUnlock_notify \<longleftrightarrow> x = readUnlock_notify"
  by (cases x; simp)+

lemma wake_outstanding:
  "write_outstanding (wake k) = write_outstanding k"
  "read_outstanding (wake k) = read_outstanding k"
  by (simp_all add: write_outstanding_def read_outstanding_def wake_def woken_not_outstanding)

lemma flags_at_woken: "flags_at x w r \<Longrightarrow> flags_at (woken x) w r"
  by (cases x) (simp_all add: UNLOCKED_def)

lemma wake_local_ok: "local_ok k \<Longrightarrow> local_ok (wake k)"
  by (simp add: local_ok_def wake_def flags_at_woken)

lemma coherent_wake: "coherent b h k \<Longrightarrow> coherent b h (wake k)"
  unfolding coherent_def wake_outstanding using wake_local_ok by blast

lemma enter_local:
  assumes "control h = Idle" and "local_ok h"
  shows "local_ok (enter c h)"
    and "write_outstanding (enter c h) = write_outstanding h"
    and "read_outstanding (enter c h) = read_outstanding h"
  using assms
  by (cases c; simp add: local_ok_def throw_def write_outstanding_def read_outstanding_def
      UNLOCKED_def)+

lemma coherent_local_move:
  assumes "coherent b h k" and "local_ok h'"
    and "write_outstanding h' = write_outstanding h"
    and "read_outstanding h' = read_outstanding h"
  shows "coherent b h' k"
  using assms by (simp add: coherent_def)

lemma coherent_Idle:
  assumes "coherent b h k" and "control h = Idle"
  shows "coherent b (enter c h) k"
  using assms by (simp add: coherent_def enter_local)

lemma coherent_writeLock_compareExchange:
  assumes c: "coherent b h k" and at: "control h = writeLock_compareExchange"
    and step: "step_at writeLock_compareExchange c b h = (b', h', n)"
  shows "coherent b' h' k"
proof -
  from c have v: "0 < view_length b" and lh: "local_ok h" and lk: "local_ok k"
    and w: "word_ok (get_int32 b BYTE_OFFSET) (write_outstanding h) (read_outstanding h)
       (write_outstanding k) (read_outstanding k)"
    by (simp_all add: coherent_def)
  from lh at have f: "\<not> holdsWrite h" "\<not> holdsRead h"
    "\<not> write_outstanding h" "\<not> read_outstanding h"
    by (simp_all add: local_ok_def write_outstanding_def read_outstanding_def)
  show ?thesis
  proof (cases "get_int32 b BYTE_OFFSET = 0")
    case True
    with step v have r: "b' = set_int32 b BYTE_OFFSET (- 1)" "h' = h\<lparr>control := writeLock_notify\<rparr>"
      by (auto simp: cas0 UNLOCKED_def WRITE_LOCKED_def ToInt32_def)
    have "local_ok h'" "write_outstanding h'" "\<not> read_outstanding h'"
      using f r by (simp_all add: local_ok_def write_outstanding_def read_outstanding_def)
    moreover have "\<not> write_outstanding k" "\<not> read_outstanding k"
      using w True f by (auto simp: word_ok_def split: if_splits)
    ultimately show ?thesis
      using v lk r by (simp add: coherent_def get_set0 view_set0 word_ok_def)
  next
    case False
    then have "sint (get_int32 b BYTE_OFFSET) \<noteq> 0"
      by (auto dest: sint_eq_D [simplified ToInt32_def])
    with False step v have r: "b' = b"
      "h' = h\<lparr>control := writeLock_wait (sint (get_int32 b BYTE_OFFSET))\<rparr>"
      by (auto simp: cas0 UNLOCKED_def WRITE_LOCKED_def ToInt32_def)
    have "local_ok h'" "\<not> write_outstanding h'" "\<not> read_outstanding h'"
      using f r by (simp_all add: local_ok_def write_outstanding_def read_outstanding_def)
    then show ?thesis
      using c r f by (simp add: coherent_local_move)
  qed
qed

lemma coherent_writeLock_wait:
  assumes c: "coherent b h k" and at: "control h = writeLock_wait v"
    and step: "step_at (writeLock_wait v) c b h = (b', h', n)"
  shows "coherent b' h' k"
proof -
  from c have lh: "local_ok h"
    by (simp add: coherent_def)
  from lh at have f: "\<not> holdsWrite h" "\<not> holdsRead h"
    "\<not> write_outstanding h" "\<not> read_outstanding h"
    by (simp_all add: local_ok_def write_outstanding_def read_outstanding_def)
  from step have "b' = b"
    by (auto split: sum.splits option.splits)
  moreover from step f have "local_ok h'" "\<not> write_outstanding h'" "\<not> read_outstanding h'"
    by (auto simp: local_ok_def write_outstanding_def read_outstanding_def throw_def
        split: sum.splits option.splits)
  ultimately show ?thesis
    using c f by (simp add: coherent_local_move)
qed

lemma coherent_readLock_wait:
  assumes c: "coherent b h k" and at: "control h = readLock_wait"
    and step: "step_at readLock_wait c b h = (b', h', n)"
  shows "coherent b' h' k"
proof -
  from c have lh: "local_ok h"
    by (simp add: coherent_def)
  from lh at have f: "\<not> holdsWrite h" "\<not> holdsRead h"
    "\<not> write_outstanding h" "\<not> read_outstanding h"
    by (simp_all add: local_ok_def write_outstanding_def read_outstanding_def)
  from step have "b' = b"
    by (auto split: sum.splits option.splits)
  moreover from step f have "local_ok h'" "\<not> write_outstanding h'" "\<not> read_outstanding h'"
    by (auto simp: local_ok_def write_outstanding_def read_outstanding_def throw_def
        UNLOCKED_def split: sum.splits option.splits)
  ultimately show ?thesis
    using c f by (simp add: coherent_local_move)
qed

lemma coherent_notify:
  assumes c: "coherent b h k"
    and at: "control h = writeLock_notify \<and> v = True \<and> h' = h\<lparr>control := Idle, holdsWrite := v\<rparr>
      \<or> control h = writeUnlock_notify \<and> v = False \<and> h' = h\<lparr>control := Idle, holdsWrite := v\<rparr>
      \<or> control h = readLock_notify \<and> v = True \<and> h' = h\<lparr>control := Idle, holdsRead := v\<rparr>
      \<or> control h = readUnlock_notify \<and> v = False \<and> h' = h\<lparr>control := Idle, holdsRead := v\<rparr>"
  shows "coherent b h' k"
proof -
  from c have lh: "local_ok h"
    by (simp add: coherent_def)
  with at have "local_ok h'" "write_outstanding h' = write_outstanding h"
    "read_outstanding h' = read_outstanding h"
    by (auto simp: local_ok_def write_outstanding_def read_outstanding_def)
  with c show ?thesis
    by (simp add: coherent_local_move)
qed

lemma coherent_writeUnlock_compareExchange:
  assumes c: "coherent b h k" and at: "control h = writeUnlock_compareExchange"
    and step: "step_at writeUnlock_compareExchange c b h = (b', h', n)"
  shows "coherent b' h' k"
proof -
  from c have v: "0 < view_length b" and lh: "local_ok h" and lk: "local_ok k"
    and w: "word_ok (get_int32 b BYTE_OFFSET) (write_outstanding h) (read_outstanding h)
       (write_outstanding k) (read_outstanding k)"
    by (simp_all add: coherent_def)
  from lh at have f: "holdsWrite h" "\<not> holdsRead h"
    "write_outstanding h" "\<not> read_outstanding h"
    by (simp_all add: local_ok_def write_outstanding_def read_outstanding_def)
  from w f have locked: "get_int32 b BYTE_OFFSET = - 1"
    and k: "\<not> write_outstanding k" "\<not> read_outstanding k"
    by (simp_all add: word_ok_def)
  with step v have r: "b' = set_int32 b BYTE_OFFSET 0" "h' = h\<lparr>control := writeUnlock_notify\<rparr>"
    by (auto simp: cas0 UNLOCKED_def WRITE_LOCKED_def ToInt32_def)
  have "local_ok h'" "\<not> write_outstanding h'" "\<not> read_outstanding h'"
    using f r by (simp_all add: local_ok_def write_outstanding_def read_outstanding_def)
  then show ?thesis
    using v lk r k by (simp add: coherent_def get_set0 view_set0 word_ok_def)
qed

lemma coherent_readLock_compareExchange:
  assumes c: "coherent b h k" and at: "control h = readLock_compareExchange ls"
    and step: "step_at (readLock_compareExchange ls) c b h = (b', h', n)"
  shows "coherent b' h' k"
proof -
  from c have v: "0 < view_length b" and lh: "local_ok h" and lk: "local_ok k"
    and w: "word_ok (get_int32 b BYTE_OFFSET) (write_outstanding h) (read_outstanding h)
       (write_outstanding k) (read_outstanding k)"
    by (simp_all add: coherent_def)
  from lh at have f: "\<not> holdsWrite h" "\<not> holdsRead h"
    "\<not> write_outstanding h" "\<not> read_outstanding h"
    and ls: "ls = 0 \<or> ls = 1 \<or> ls = 2"
    by (simp_all add: local_ok_def write_outstanding_def read_outstanding_def)
  from w f consider
      (locked) "get_int32 b BYTE_OFFSET = - 1"
    | (free) "get_int32 b BYTE_OFFSET = 0" "\<not> write_outstanding k" "\<not> read_outstanding k"
    | (read) "get_int32 b BYTE_OFFSET = 1" "\<not> write_outstanding k" "read_outstanding k"
    by (cases "read_outstanding k") (auto simp: word_ok_def split: if_splits)
  then show ?thesis
  proof cases
    case locked
    with step v ls have r: "b' = b" "h' = h\<lparr>control := readLock_wait\<rparr>"
      by (auto simp: cas0 ToInt32_def)
    have "local_ok h'" "\<not> write_outstanding h'" "\<not> read_outstanding h'"
      using f r by (simp_all add: local_ok_def write_outstanding_def read_outstanding_def)
    then show ?thesis
      using c r f by (simp add: coherent_local_move)
  next
    case free
    show ?thesis
    proof (cases "ls = 0")
      case True
      with free step v have r: "b' = set_int32 b BYTE_OFFSET 1"
        "h' = h\<lparr>control := readLock_notify\<rparr>"
        by (auto simp: cas0 ToInt32_def)
      have "local_ok h'" "\<not> write_outstanding h'" "read_outstanding h'"
        using f r by (simp_all add: local_ok_def write_outstanding_def read_outstanding_def)
      then show ?thesis
        using v lk r free by (simp add: coherent_def get_set0 view_set0 word_ok_def)
    next
      case False
      with free step v ls have r: "b' = b" "h' = h\<lparr>control := readLock_compareExchange 0\<rparr>"
        by (auto simp: cas0 ToInt32_def)
      have "local_ok h'" "\<not> write_outstanding h'" "\<not> read_outstanding h'"
        using f r by (simp_all add: local_ok_def write_outstanding_def read_outstanding_def)
      then show ?thesis
        using c r f by (simp add: coherent_local_move)
    qed
  next
    case read
    show ?thesis
    proof (cases "ls = 1")
      case True
      with read step v have r: "b' = set_int32 b BYTE_OFFSET 2"
        "h' = h\<lparr>control := readLock_notify\<rparr>"
        by (auto simp: cas0 ToInt32_def)
      have "local_ok h'" "\<not> write_outstanding h'" "read_outstanding h'"
        using f r by (simp_all add: local_ok_def write_outstanding_def read_outstanding_def)
      then show ?thesis
        using v lk r read by (simp add: coherent_def get_set0 view_set0 word_ok_def)
    next
      case False
      with read step v ls have r: "b' = b" "h' = h\<lparr>control := readLock_compareExchange 1\<rparr>"
        by (auto simp: cas0 ToInt32_def)
      have "local_ok h'" "\<not> write_outstanding h'" "\<not> read_outstanding h'"
        using f r by (simp_all add: local_ok_def write_outstanding_def read_outstanding_def)
      then show ?thesis
        using c r f by (simp add: coherent_local_move)
    qed
  qed
qed

lemma coherent_readUnlock_compareExchange:
  assumes c: "coherent b h k" and at: "control h = readUnlock_compareExchange ls"
    and step: "step_at (readUnlock_compareExchange ls) c b h = (b', h', n)"
  shows "coherent b' h' k"
proof -
  from c have v: "0 < view_length b" and lh: "local_ok h" and lk: "local_ok k"
    and w: "word_ok (get_int32 b BYTE_OFFSET) (write_outstanding h) (read_outstanding h)
       (write_outstanding k) (read_outstanding k)"
    by (simp_all add: coherent_def)
  from lh at have f: "\<not> holdsWrite h" "holdsRead h"
    "\<not> write_outstanding h" "read_outstanding h"
    and ls: "ls = 1 \<or> ls = 2"
    by (simp_all add: local_ok_def write_outstanding_def read_outstanding_def)
  from w f consider
      (one) "get_int32 b BYTE_OFFSET = 1" "\<not> write_outstanding k" "\<not> read_outstanding k"
    | (two) "get_int32 b BYTE_OFFSET = 2" "\<not> write_outstanding k" "read_outstanding k"
    by (cases "read_outstanding k") (auto simp: word_ok_def split: if_splits)
  then show ?thesis
  proof cases
    case one
    show ?thesis
    proof (cases "ls = 1")
      case True
      with one step v have r: "b' = set_int32 b BYTE_OFFSET 0"
        "h' = h\<lparr>control := readUnlock_notify\<rparr>"
        by (auto simp: cas0 ToInt32_def WRITE_LOCKED_def)
      have "local_ok h'" "\<not> write_outstanding h'" "\<not> read_outstanding h'"
        using f r by (simp_all add: local_ok_def write_outstanding_def read_outstanding_def)
      then show ?thesis
        using v lk r one by (simp add: coherent_def get_set0 view_set0 word_ok_def)
    next
      case False
      with one step v ls have r: "b' = b" "h' = h\<lparr>control := readUnlock_compareExchange 1\<rparr>"
        by (auto simp: cas0 ToInt32_def WRITE_LOCKED_def)
      have "local_ok h'" "\<not> write_outstanding h'" "read_outstanding h'"
        using f r by (simp_all add: local_ok_def write_outstanding_def read_outstanding_def)
      then show ?thesis
        using c r f by (simp add: coherent_local_move)
    qed
  next
    case two
    show ?thesis
    proof (cases "ls = 2")
      case True
      with two step v have r: "b' = set_int32 b BYTE_OFFSET 1"
        "h' = h\<lparr>control := readUnlock_notify\<rparr>"
        by (auto simp: cas0 ToInt32_def WRITE_LOCKED_def)
      have "local_ok h'" "\<not> write_outstanding h'" "\<not> read_outstanding h'"
        using f r by (simp_all add: local_ok_def write_outstanding_def read_outstanding_def)
      then show ?thesis
        using v lk r two by (simp add: coherent_def get_set0 view_set0 word_ok_def)
    next
      case False
      with two step v ls have r: "b' = b" "h' = h\<lparr>control := readUnlock_compareExchange 2\<rparr>"
        by (auto simp: cas0 ToInt32_def WRITE_LOCKED_def)
      have "local_ok h'" "\<not> write_outstanding h'" "read_outstanding h'"
        using f r by (simp_all add: local_ok_def write_outstanding_def read_outstanding_def)
      then show ?thesis
        using c r f by (simp add: coherent_local_move)
    qed
  qed
qed

lemma coherent_handle_step:
  assumes c: "coherent b h k" and step: "handle_step c b h = (b', h', n)"
  shows "coherent b' h' k"
proof (cases "control h")
  case Idle
  with c step show ?thesis
    by (auto simp: handle_step_def coherent_Idle)
next
  case writeLock_compareExchange
  with c step show ?thesis
    by (auto simp only: handle_step_def intro: coherent_writeLock_compareExchange)
next
  case (writeLock_wait v)
  with c step show ?thesis
    by (auto simp only: handle_step_def intro: coherent_writeLock_wait)
next
  case writeLock_asleep
  with c step show ?thesis
    by (auto simp: handle_step_def)
next
  case writeLock_notify
  from c have "0 < view_length b"
    by (simp add: coherent_def)
  with step writeLock_notify have "b' = b" "h' = h\<lparr>control := Idle, holdsWrite := True\<rparr>"
    by (auto simp: handle_step_def notify0)
  with writeLock_notify show ?thesis
    using coherent_notify [OF c, where v = True and h' = h'] by simp
next
  case writeUnlock_compareExchange
  with c step show ?thesis
    by (auto simp only: handle_step_def intro: coherent_writeUnlock_compareExchange)
next
  case writeUnlock_notify
  from c have "0 < view_length b"
    by (simp add: coherent_def)
  with step writeUnlock_notify have "b' = b" "h' = h\<lparr>control := Idle, holdsWrite := False\<rparr>"
    by (auto simp: handle_step_def notify0)
  with writeUnlock_notify show ?thesis
    using coherent_notify [OF c, where v = False and h' = h'] by simp
next
  case (readLock_compareExchange ls)
  with c step show ?thesis
    by (auto simp only: handle_step_def intro: coherent_readLock_compareExchange)
next
  case readLock_wait
  with c step show ?thesis
    by (auto simp only: handle_step_def intro: coherent_readLock_wait)
next
  case readLock_asleep
  with c step show ?thesis
    by (auto simp: handle_step_def)
next
  case readLock_notify
  from c have "0 < view_length b"
    by (simp add: coherent_def)
  with step readLock_notify have "b' = b" "h' = h\<lparr>control := Idle, holdsRead := True\<rparr>"
    by (auto simp: handle_step_def notify0)
  with readLock_notify show ?thesis
    using coherent_notify [OF c, where v = True and h' = h'] by simp
next
  case (readUnlock_compareExchange ls)
  with c step show ?thesis
    by (auto simp only: handle_step_def intro: coherent_readUnlock_compareExchange)
next
  case readUnlock_notify
  from c have "0 < view_length b"
    by (simp add: coherent_def)
  with step readUnlock_notify have "b' = b" "h' = h\<lparr>control := Idle, holdsRead := False\<rparr>"
    by (auto simp: handle_step_def notify0)
  with readUnlock_notify show ?thesis
    using coherent_notify [OF c, where v = False and h' = h'] by simp
qed

lemma coherent_system_step:
  assumes "coherent (memory \<sigma>) (handleA \<sigma>) (handleB \<sigma>)"
  shows "coherent (memory (system_step \<sigma> x)) (handleA (system_step \<sigma> x))
    (handleB (system_step \<sigma> x))"
proof (cases x)
  case (Pair a c)
  show ?thesis
  proof (cases a)
    case A
    obtain b' h' n where s: "handle_step c (memory \<sigma>) (handleA \<sigma>) = (b', h', n)"
      by (cases "handle_step c (memory \<sigma>) (handleA \<sigma>)")
    from coherent_handle_step [OF assms s] have "coherent b' h' (handleB \<sigma>)" .
    then have "coherent b' h' (if n then wake (handleB \<sigma>) else handleB \<sigma>)"
      by (simp add: coherent_wake)
    with Pair A s show ?thesis
      by simp
  next
    case B
    obtain b' h' n where s: "handle_step c (memory \<sigma>) (handleB \<sigma>) = (b', h', n)"
      by (cases "handle_step c (memory \<sigma>) (handleB \<sigma>)")
    from assms have "coherent (memory \<sigma>) (handleB \<sigma>) (handleA \<sigma>)"
      by (simp add: coherent_sym)
    from coherent_handle_step [OF this s] have "coherent b' h' (handleA \<sigma>)" .
    then have "coherent b' h' (if n then wake (handleA \<sigma>) else handleA \<sigma>)"
      by (simp add: coherent_wake)
    then have "coherent b' (if n then wake (handleA \<sigma>) else handleA \<sigma>) h'"
      by (simp add: coherent_sym)
    with Pair B s show ?thesis
      by simp
  qed
qed

lemma coherent_execute:
  "coherent (memory \<sigma>) (handleA \<sigma>) (handleB \<sigma>) \<Longrightarrow>
   coherent (memory (execute schedule \<sigma>)) (handleA (execute schedule \<sigma>))
     (handleB (execute schedule \<sigma>))"
  unfolding execute_def
  by (induction schedule arbitrary: \<sigma>) (simp_all add: coherent_system_step)

lemma coherent_attached:
  assumes "0 < view_length b" and "get_int32 b BYTE_OFFSET = 0"
  shows "coherent (memory (attached b)) (handleA (attached b)) (handleB (attached b))"
  using assms
  by (simp add: attached_def fresh_def coherent_def word_ok_def local_ok_def
      write_outstanding_def read_outstanding_def)

text \<open>
  C2. Two handles are attached to a buffer whose lock word is 0, and their agents call the
  four methods in any order and as often as they like, misuse included, interleaved in any
  way at the accesses to the shared memory. Then at every moment the two write
  acquisitions are not both outstanding; when the lock word is \<open>-1\<close> exactly one of them
  is; and when both handles are outside of every method at most one has \<^verbatim>\<open>haveWriteLock\<close>
  set.
\<close>

theorem at_most_one_writer:
  assumes "4 \<le> byteLength b" and "get_int32 b BYTE_OFFSET = 0"
    and "\<sigma> = execute schedule (attached b)"
  shows
   "\<not> (write_outstanding (handleA \<sigma>) \<and> write_outstanding (handleB \<sigma>)) \<and>
    (get_int32 (memory \<sigma>) BYTE_OFFSET = - 1 \<longrightarrow>
       write_outstanding (handleA \<sigma>) \<noteq> write_outstanding (handleB \<sigma>)) \<and>
    (control (handleA \<sigma>) = Idle \<and> control (handleB \<sigma>) = Idle \<longrightarrow>
       \<not> (holdsWrite (handleA \<sigma>) \<and> holdsWrite (handleB \<sigma>)))"
proof -
  from assms(1) have v: "0 < view_length b"
    by (simp add: view_length_pos)
  from coherent_execute [OF coherent_attached [OF v assms(2)], of schedule] assms(3)
  have "coherent (memory \<sigma>) (handleA \<sigma>) (handleB \<sigma>)"
    by simp
  then have w: "word_ok (get_int32 (memory \<sigma>) BYTE_OFFSET)
      (write_outstanding (handleA \<sigma>)) (read_outstanding (handleA \<sigma>))
      (write_outstanding (handleB \<sigma>)) (read_outstanding (handleB \<sigma>))"
    by (simp add: coherent_def)
  have 1: "\<not> (write_outstanding (handleA \<sigma>) \<and> write_outstanding (handleB \<sigma>))"
    using w by (auto simp: word_ok_def split: if_splits)
  have 2: "write_outstanding (handleA \<sigma>) \<noteq> write_outstanding (handleB \<sigma>)"
    if "get_int32 (memory \<sigma>) BYTE_OFFSET = - 1"
    using w that
    by (cases "read_outstanding (handleA \<sigma>)"; cases "read_outstanding (handleB \<sigma>)")
      (auto simp: word_ok_def split: if_splits)
  have 3: "\<not> (holdsWrite (handleA \<sigma>) \<and> holdsWrite (handleB \<sigma>))"
    if "control (handleA \<sigma>) = Idle \<and> control (handleB \<sigma>) = Idle"
    using 1 that by (simp add: write_outstanding_def)
  from 1 2 3 show ?thesis
    by blast
qed

theorem at_most_one_writer_witness:
  "4 \<le> byteLength (new_SharedArrayBuffer 4) \<and>
   get_int32 (new_SharedArrayBuffer 4) BYTE_OFFSET = 0 \<and>
   get_int32 (memory (execute handover (attached (new_SharedArrayBuffer 4)))) BYTE_OFFSET
     = - 1 \<and>
   control (handleA (execute handover (attached (new_SharedArrayBuffer 4)))) = Idle \<and>
   control (handleB (execute handover (attached (new_SharedArrayBuffer 4)))) = Idle \<and>
   write_outstanding (handleA (execute handover (attached (new_SharedArrayBuffer 4)))) \<and>
   \<not> write_outstanding (handleB (execute handover (attached (new_SharedArrayBuffer 4)))) \<and>
   \<not> (holdsWrite (handleA (execute handover (attached (new_SharedArrayBuffer 4)))) \<and>
      holdsWrite (handleB (execute handover (attached (new_SharedArrayBuffer 4)))))"
proof -
  let ?\<sigma> = "execute handover (attached (new_SharedArrayBuffer 4))"
  have b: "4 \<le> byteLength (new_SharedArrayBuffer 4)"
    "get_int32 (new_SharedArrayBuffer 4) BYTE_OFFSET = 0"
    by code_simp+
  have r: "get_int32 (memory ?\<sigma>) BYTE_OFFSET = - 1"
    "control (handleA ?\<sigma>) = Idle" "control (handleB ?\<sigma>) = Idle"
    "write_outstanding (handleA ?\<sigma>)"
    by code_simp+
  from at_most_one_writer [OF b refl, of handover] b r show ?thesis
    by blast
qed

end
